theory Spec2Isabelle
  imports Main "HOL-Library.Sublist"
begin

section \<open>Data model of \<^verbatim>\<open>ask-my-course/_api/api.py\<close>\<close>

text \<open>
  The service talks to a hosted backend through the \<^verbatim>\<open>steamship\<close> client. The
  objects it reads and writes are tags. Every tag has a kind and a name; the tags of a
  file (\<^verbatim>\<open>file.tags\<close>: source, title, status) carry nothing else the code reads,
  the tags of a block (\<^verbatim>\<open>file.blocks[0].tags\<close>) also carry a span
  (\<^verbatim>\<open>start_idx\<close>, \<^verbatim>\<open>end_idx\<close>) and a dictionary \<^verbatim>\<open>value\<close>. A dictionary
  entry is an arbitrary Python value; the code only copies such values, so they are
  integers, strings, or anything else (\<open>PyOther\<close>, for instance a time in seconds).
\<close>

datatype 'v py_value = PyInt int | PyStr string | PyOther 'v

record tag =
  tag_id :: nat
  kind :: string
  name :: string

record 'v span_tag = tag +
  start_idx :: int
  end_idx :: int
  tag_value :: "string \<rightharpoonup> 'v py_value"

text \<open>A langchain \<^verbatim>\<open>Document\<close>: the text and a metadata dictionary.\<close>

record 'v document =
  page_content :: string
  metadata :: "string \<rightharpoonup> 'v py_value"

text \<open>The exceptions the modelled code can meet.\<close>

datatype error =
    IndexError
  | KeyError string
  | SteamshipError

section \<open>The chunking loop of \<^verbatim>\<open>index_lecture\<close>\<close>

definition context_window_size :: nat where
  "context_window_size = 200"

definition context_window_overlap :: nat where
  "context_window_overlap = 50"

text \<open>
  \<^verbatim>\<open>range(start, stop, step)\<close> for non-negative arguments. Python raises
  \<^verbatim>\<open>ValueError\<close> for a zero step; the only step the code passes is
  \<^verbatim>\<open>context_window_size - context_window_overlap\<close>.
\<close>

function py_range :: "nat \<Rightarrow> nat \<Rightarrow> nat \<Rightarrow> nat list" where
  "py_range start stop step =
     (if step = 0 then []
      else if start < stop then start # py_range (start + step) stop step
      else [])"
  by pat_completeness auto
termination
  by (relation "measure (\<lambda>(start, stop, step). stop - start)") auto

text \<open>\<^verbatim>\<open>" ".join(...)\<close>\<close>

fun join_space :: "string list \<Rightarrow> string" where
  "join_space [] = []"
| "join_space [s] = s"
| "join_space (s # t # ss) = s @ '' '' @ join_space (t # ss)"

text \<open>
  \<^verbatim>\<open>d[key]\<close> on a dictionary: \<^verbatim>\<open>KeyError\<close> when the key is absent.
\<close>

definition getitem :: "(string \<rightharpoonup> 'a) \<Rightarrow> string \<Rightarrow> error + 'a" where
  "getitem d k = (case d k of None \<Rightarrow> Inl (KeyError k) | Some v \<Rightarrow> Inr v)"

text \<open>The slice \<^verbatim>\<open>timestamps[i: i + context_window_size]\<close>.\<close>

definition timestamp_tags_window :: "'v span_tag list \<Rightarrow> nat \<Rightarrow> 'v span_tag list" where
  "timestamp_tags_window timestamps i = take context_window_size (drop i timestamps)"

text \<open>
  The body of the loop, lines 117 to 128: the joined text, then the metadata dictionary,
  whose entries are evaluated in the order written. \<^verbatim>\<open>window[0]\<close> and
  \<^verbatim>\<open>window[-1]\<close> raise \<^verbatim>\<open>IndexError\<close> on an empty window, and each
  \<^verbatim>\<open>value[...]\<close> raises \<^verbatim>\<open>KeyError\<close> when the tag carries no such entry.
\<close>

definition make_document :: "'v span_tag list \<Rightarrow> string \<Rightarrow> error + 'v document" where
  "make_document window source =
     (let page = join_space (map name window) in
      case window of
        [] \<Rightarrow> Inl IndexError
      | first # _ \<Rightarrow>
          (case getitem (tag_value first) ''start_time'' of
             Inl e \<Rightarrow> Inl e
           | Inr st \<Rightarrow>
               (case getitem (tag_value (last window)) ''end_time'' of
                  Inl e \<Rightarrow> Inl e
                | Inr et \<Rightarrow>
                    Inr \<lparr> page_content = page,
                          metadata =
                            [''start_time'' \<mapsto> st,
                             ''end_time'' \<mapsto> et,
                             ''start_idx'' \<mapsto> PyInt (start_idx (last window)),
                             ''end_idx'' \<mapsto> PyInt (end_idx (last window)),
                             ''source'' \<mapsto> PyStr source] \<rparr>)))"

text \<open>
  The \<^verbatim>\<open>for\<close> loop over the window starts, appending to \<^verbatim>\<open>documents\<close>; an
  exception in the body leaves the loop and the function.
\<close>

fun chunk_loop ::
  "nat list \<Rightarrow> 'v span_tag list \<Rightarrow> string \<Rightarrow> 'v document list \<Rightarrow> error + 'v document list" where
  "chunk_loop [] timestamps source documents = Inr documents"
| "chunk_loop (i # rest) timestamps source documents =
     (case make_document (timestamp_tags_window timestamps i) source of
        Inl e \<Rightarrow> Inl e
      | Inr doc \<Rightarrow> chunk_loop rest timestamps source (documents @ [doc]))"

definition window_starts :: "'v span_tag list \<Rightarrow> nat list" where
  "window_starts timestamps =
     py_range 0 (length timestamps) (context_window_size - context_window_overlap)"

text \<open>Lines 113 to 129: the documents built from the sorted timestamp tags.\<close>

definition chunk_documents :: "'v span_tag list \<Rightarrow> string \<Rightarrow> error + 'v document list" where
  "chunk_documents timestamps source =
     chunk_loop (window_starts timestamps) timestamps source []"

text \<open>The windows the loop slices, in order.\<close>

definition windows :: "'v span_tag list \<Rightarrow> 'v span_tag list list" where
  "windows timestamps = map (timestamp_tags_window timestamps) (window_starts timestamps)"

text \<open>
  Lines 107 and 108: the timestamp tags of the block, sorted by \<^verbatim>\<open>start_idx\<close>
  (\<^verbatim>\<open>sorted\<close> is stable, as \<open>sort_key\<close> is).
\<close>

definition sorted_timestamps :: "'v span_tag list \<Rightarrow> 'v span_tag list" where
  "sorted_timestamps tags =
     sort_key start_idx (filter (\<lambda>tag. kind tag = ''timestamp'') tags)"

section \<open>The backend: tags of the lecture's file, its blocks, the vector index\<close>

text \<open>
  One lecture is one file of the backend. The state the code reads and writes through
  the client is the file's tags, the tags of its blocks, and the documents of the vector
  index. \<open>history\<close> records every write the backend has served, in order; \<open>next_id\<close>
  is the identifier the next created tag gets.
\<close>

datatype event =
    Tag_created string string
  | Tag_deleted nat
  | Documents_added nat
  | Blockify_submitted

record 'v world =
  file_tags :: "tag list"
  file_blocks :: "'v span_tag list list"
  vector_index :: "'v document list"
  history :: "event list"
  next_id :: nat

text \<open>
  What the services outside the repository answer during one run: whether a request
  fails with \<^verbatim>\<open>SteamshipError\<close>, what title \<^verbatim>\<open>YouTube(source).title\<close> finds,
  and what the transcription task attaches to the file. \<open>add_documents_fails_after\<close> is
  \<open>Some n\<close> when the insertion fails after \<open>n\<close> documents went in.
\<close>

record 'v services =
  import_fails :: bool
  delete_raises :: "nat \<Rightarrow> bool"
  create_raises :: "string \<Rightarrow> string \<Rightarrow> bool"
  youtube_title :: "string \<Rightarrow> error + string"
  transcription :: "error + 'v span_tag list"
  add_documents_fails_after :: "nat option"

text \<open>
  \<^verbatim>\<open>Tag.create(client, file_id, kind, name)\<close>: the new tag is attached to the file.
\<close>

definition Tag_create ::
  "'v services \<Rightarrow> string \<Rightarrow> string \<Rightarrow> 'v world \<Rightarrow> (error + unit) \<times> 'v world" where
  "Tag_create sv k n w =
     (if create_raises sv k n then (Inl SteamshipError, w)
      else (Inr (),
            w\<lparr> file_tags := file_tags w @ [\<lparr> tag_id = next_id w, kind = k, name = n \<rparr>],
               history := history w @ [Tag_created k n],
               next_id := Suc (next_id w) \<rparr>))"

text \<open>
  \<^verbatim>\<open>status_tag.delete()\<close>: the backend raises \<^verbatim>\<open>SteamshipError\<close> when the tag
  is no longer there, or when the request fails (the tag stays); otherwise the tag is
  removed from the file.
\<close>

definition Tag_delete ::
  "'v services \<Rightarrow> tag \<Rightarrow> 'v world \<Rightarrow> (error + unit) \<times> 'v world" where
  "Tag_delete sv t w =
     (if tag_id t \<notin> set (map tag_id (file_tags w)) then (Inl SteamshipError, w)
      else if delete_raises sv (tag_id t) then (Inl SteamshipError, w)
      else (Inr (),
            w\<lparr> file_tags := filter (\<lambda>u. tag_id u \<noteq> tag_id t) (file_tags w),
               history := history w @ [Tag_deleted (tag_id t)] \<rparr>))"

section \<open>\<^verbatim>\<open>_update_file_status\<close>\<close>

text \<open>
  Lines 91 to 96: the loop over the status tags; \<^verbatim>\<open>except SteamshipError: pass\<close>
  swallows that exception and no other.
\<close>

fun delete_status_tags ::
  "'v services \<Rightarrow> tag list \<Rightarrow> 'v world \<Rightarrow> (error + unit) \<times> 'v world" where
  "delete_status_tags sv [] w = (Inr (), w)"
| "delete_status_tags sv (status_tag # rest) w =
     (case Tag_delete sv status_tag w of
        (Inl e, w') \<Rightarrow>
          if e = SteamshipError then delete_status_tags sv rest w' else (Inl e, w')
      | (Inr _, w') \<Rightarrow> delete_status_tags sv rest w')"

text \<open>
  Lines 88 to 98. \<^verbatim>\<open>file.refresh()\<close> reads the file's current tags.
\<close>

definition update_file_status ::
  "'v services \<Rightarrow> string \<Rightarrow> 'v world \<Rightarrow> (error + unit) \<times> 'v world" where
  "update_file_status sv status w =
     (let status_tags = filter (\<lambda>tag. kind tag = ''status'') (file_tags w) in
      case delete_status_tags sv status_tags w of
        (Inl e, w') \<Rightarrow> (Inl e, w')
      | (Inr _, w') \<Rightarrow> Tag_create sv ''status'' status w')"

section \<open>\<^verbatim>\<open>index_lecture\<close>, \<^verbatim>\<open>transcribe_lecture\<close>, \<^verbatim>\<open>add_lecture\<close>\<close>

text \<open>\<^verbatim>\<open>self._get_index().add_documents(documents)\<close>\<close>

definition add_documents ::
  "'v services \<Rightarrow> 'v document list \<Rightarrow> 'v world \<Rightarrow> (error + unit) \<times> 'v world" where
  "add_documents sv documents w =
     (case add_documents_fails_after sv of
        Some n \<Rightarrow> (Inl SteamshipError, w\<lparr> vector_index := vector_index w @ take n documents \<rparr>)
      | None \<Rightarrow>
          (Inr (),
           w\<lparr> vector_index := vector_index w @ documents,
              history := history w @ [Documents_added (length documents)] \<rparr>))"

text \<open>
  Lines 100 to 132. The task and file lookups of lines 102 and 103 resolve to the
  lecture's file; \<^verbatim>\<open>file.blocks[0]\<close> raises \<^verbatim>\<open>IndexError\<close> when the file has
  no block.
\<close>

definition index_lecture ::
  "'v services \<Rightarrow> string \<Rightarrow> 'v world \<Rightarrow> (error + bool) \<times> 'v world" where
  "index_lecture sv source w =
     (case update_file_status sv ''Indexing'' w of
        (Inl e, w1) \<Rightarrow> (Inl e, w1)
      | (Inr _, w1) \<Rightarrow>
          (case file_blocks w1 of
             [] \<Rightarrow> (Inl IndexError, w1)
           | tags # _ \<Rightarrow>
               (case chunk_documents (sorted_timestamps tags) source of
                  Inl e \<Rightarrow> (Inl e, w1)
                | Inr documents \<Rightarrow>
                    (case add_documents sv documents w1 of
                       (Inl e, w2) \<Rightarrow> (Inl e, w2)
                     | (Inr _, w2) \<Rightarrow>
                         (case update_file_status sv ''Indexed'' w2 of
                            (Inl e, w3) \<Rightarrow> (Inl e, w3)
                          | (Inr _, w3) \<Rightarrow> (Inr True, w3))))))"

text \<open>
  \<^verbatim>\<open>invoke_later(method, arguments, wait_on_tasks)\<close> returns at once; what it
  returns is the scheduled call.
\<close>

datatype invocation = Invoke_later string string

text \<open>
  Lines 134 to 150. \<^verbatim>\<open>YouTube(source).title\<close> is evaluated before the title tag is
  created; \<^verbatim>\<open>file.blockify\<close> only submits the transcription task.
\<close>

definition transcribe_lecture ::
  "'v services \<Rightarrow> string \<Rightarrow> 'v world \<Rightarrow> (error + invocation) \<times> 'v world" where
  "transcribe_lecture sv source w =
     (case Tag_create sv ''source'' source w of
        (Inl e, w1) \<Rightarrow> (Inl e, w1)
      | (Inr _, w1) \<Rightarrow>
          (case youtube_title sv source of
             Inl e \<Rightarrow> (Inl e, w1)
           | Inr title \<Rightarrow>
               (case Tag_create sv ''title'' title w1 of
                  (Inl e, w2) \<Rightarrow> (Inl e, w2)
                | (Inr _, w2) \<Rightarrow>
                    (case update_file_status sv ''Transcribing'' w2 of
                       (Inl e, w3) \<Rightarrow> (Inl e, w3)
                     | (Inr _, w3) \<Rightarrow>
                         (Inr (Invoke_later ''index_lecture'' source),
                          w3\<lparr> history := history w3 @ [Blockify_submitted] \<rparr>)))))"

text \<open>Lines 152 to 163: the import is started and the transcribe stage scheduled.\<close>

definition add_lecture :: "string \<Rightarrow> bool \<times> invocation" where
  "add_lecture youtube_url = (True, Invoke_later ''transcribe_lecture'' youtube_url)"

text \<open>
  The scheduler runs a scheduled call once the task it waits on has completed, and never
  when that task failed. For \<^verbatim>\<open>transcribe_lecture\<close> the task is the import; for
  \<^verbatim>\<open>index_lecture\<close> it is the transcription, whose output is the file's first
  block. A stage that raises schedules nothing. \<open>run_pipeline\<close> is the life of one
  lecture after \<^verbatim>\<open>add_lecture\<close>.
\<close>

definition run_index_stage :: "'v services \<Rightarrow> invocation \<Rightarrow> 'v world \<Rightarrow> 'v world" where
  "run_index_stage sv call w =
     (case call of
        Invoke_later method source \<Rightarrow>
          (if method = ''index_lecture'' then
             (case transcription sv of
                Inl e \<Rightarrow> w
              | Inr tags \<Rightarrow> snd (index_lecture sv source (w\<lparr> file_blocks := [tags] \<rparr>)))
           else w))"

definition run_pipeline :: "'v services \<Rightarrow> string \<Rightarrow> 'v world \<Rightarrow> 'v world" where
  "run_pipeline sv youtube_url w =
     (case snd (add_lecture youtube_url) of
        Invoke_later method source \<Rightarrow>
          (if method = ''transcribe_lecture'' \<and> \<not> import_fails sv then
             (case transcribe_lecture sv source w of
                (Inl e, w1) \<Rightarrow> w1
              | (Inr call, w1) \<Rightarrow> run_index_stage sv call w1)
           else w))"

text \<open>The names of the status markers written, in order, among some events.\<close>

fun status_writes :: "event list \<Rightarrow> string list" where
  "status_writes [] = []"
| "status_writes (Tag_created k n # es) =
     (if k = ''status'' then n # status_writes es else status_writes es)"
| "status_writes (e # es) = status_writes es"

text \<open>
  The milestones of a lecture among some events: the status markers written and the
  insertions into the vector index, in order.
\<close>

fun is_milestone :: "event \<Rightarrow> bool" where
  "is_milestone (Tag_created k n) = (k = ''status'')"
| "is_milestone (Documents_added n) = True"
| "is_milestone e = False"

definition milestones :: "event list \<Rightarrow> event list" where
  "milestones es = filter is_milestone es"

text \<open>The status markers a file carries.\<close>

definition status_markers :: "'v world \<Rightarrow> string list" where
  "status_markers w = map name (filter (\<lambda>tag. kind tag = ''status'') (file_tags w))"

section \<open>\<^verbatim>\<open>answer\<close>\<close>

text \<open>
  \<^verbatim>\<open>str.strip()\<close>: the characters Python counts as whitespace, among the code points
  below 256.
\<close>

definition is_space :: "char \<Rightarrow> bool" where
  "is_space c \<longleftrightarrow>
     c \<in> set [CHR 0x09, CHR 0x0A, CHR 0x0B, CHR 0x0C, CHR 0x0D, CHR 0x1C, CHR 0x1D,
              CHR 0x1E, CHR 0x1F, CHR 0x20, CHR 0x85, CHR 0xA0]"

definition strip :: "string \<Rightarrow> string" where
  "strip s = dropWhile is_space (rev (dropWhile is_space (rev s)))"

text \<open>\<^verbatim>\<open>a or b\<close> on optional strings: \<^verbatim>\<open>None\<close> and the empty string are false.\<close>

definition py_or :: "string option \<Rightarrow> string option \<Rightarrow> string option" where
  "py_or a b = (case a of None \<Rightarrow> b | Some s \<Rightarrow> if s = [] then b else Some s)"

record config =
  index_name :: string
  default_chat_session_id :: "string option"

type_synonym chat_turns = "(string \<times> string) list"

text \<open>
  Modelled from the spec: \<^verbatim>\<open>chat_history.py\<close> is not among the source files. The
  Chat History Store keeps, for every session, its turns in chronological order:
  \<^verbatim>\<open>load\<close> returns all turns of the session as (question, answer) pairs, the empty
  sequence if none exist.
\<close>

definition ChatHistory_load :: "string option \<Rightarrow> (string option \<Rightarrow> chat_turns) \<Rightarrow> chat_turns" where
  "ChatHistory_load session store = store session"

text \<open>
  Modelled from the spec: \<^verbatim>\<open>chat_history.py\<close> is not among the source files.
  \<^verbatim>\<open>append\<close> adds one turn to the session, after the turns it has.
\<close>

definition ChatHistory_append ::
  "string option \<Rightarrow> string \<Rightarrow> string \<Rightarrow> (string option \<Rightarrow> chat_turns) \<Rightarrow> (string option \<Rightarrow> chat_turns)" where
  "ChatHistory_append session question ans store =
     store (session := store session @ [(question, ans)])"

text \<open>
  The calls made to the text-generation service: the condensation of a follow-up
  question, and the synthesis of an answer from retrieved documents.
\<close>

datatype 'v llm_call =
    Condense_question string chat_turns
  | Answer_synthesis "'v document list" string

record 'v chain_output =
  result_answer :: string
  result_source_documents :: "'v document list"

text \<open>
  \<^verbatim>\<open>self.qa_chain\<close> is an object of the \<^verbatim>\<open>langchain\<close> library: called with the
  question and the loaded history, it raises or returns the answer and the source
  documents together, and makes its calls to the generation service on the way.
\<close>

type_synonym 'v chain =
  "string \<Rightarrow> chat_turns \<Rightarrow> 'v llm_call list \<Rightarrow> (error + 'v chain_output) \<times> 'v llm_call list"

record 'v qa_world =
  chat_store :: "string option \<Rightarrow> chat_turns"
  llm_calls :: "'v llm_call list"

record 'v response =
  resp_answer :: string
  resp_sources :: "'v document list"

definition no_sources_message :: string where
  "no_sources_message =
     ''No sources found to answer your question. Please try another question.''"

text \<open>Lines 165 to 185.\<close>

definition answer ::
  "config \<Rightarrow> 'v chain \<Rightarrow> string \<Rightarrow> string option \<Rightarrow> 'v qa_world \<Rightarrow>
     (error + 'v response) \<times> 'v qa_world" where
  "answer cfg qa_chain question chat_session_id w =
     (let session = py_or chat_session_id (default_chat_session_id cfg);
          loaded = ChatHistory_load session (chat_store w)
      in case qa_chain question loaded (llm_calls w) of
           (Inl e, calls) \<Rightarrow> (Inl e, w\<lparr> llm_calls := calls \<rparr>)
         | (Inr result, calls) \<Rightarrow>
             (if length (result_source_documents result) = 0 then
                (Inr \<lparr> resp_answer = no_sources_message,
                       resp_sources = result_source_documents result \<rparr>,
                 w\<lparr> llm_calls := calls \<rparr>)
              else
                (Inr \<lparr> resp_answer = strip (result_answer result),
                       resp_sources = result_source_documents result \<rparr>,
                 w\<lparr> llm_calls := calls,
                    chat_store :=
                      ChatHistory_append session question (result_answer result)
                        (chat_store w) \<rparr>)))"

text \<open>
  The chain that \<^verbatim>\<open>_get_chain\<close> builds is langchain's \<^verbatim>\<open>ChatVectorDBChain\<close> with
  \<^verbatim>\<open>return_source_documents=True\<close> and \<^verbatim>\<open>top_k_docs_for_context=2\<close>, over three
  collaborators: the question generator, the vector store and the "stuff" chain that
  combines the documents into one generation call. The library is outside the
  repository; its call is written here as the library performs it: the question is
  condensed when the history is not empty, the top documents are retrieved, and the
  documents, whatever their number, are combined into an answer.
\<close>

record 'v collaborators =
  question_generator :: "string \<Rightarrow> chat_turns \<Rightarrow> string"
  similarity_search :: "string \<Rightarrow> nat \<Rightarrow> 'v document list"
  combine_docs :: "'v document list \<Rightarrow> string \<Rightarrow> string"

definition ChatVectorDBChain_call :: "'v collaborators \<Rightarrow> 'v chain" where
  "ChatVectorDBChain_call c question chat_history calls =
     (let (new_question, calls1) =
            (if chat_history \<noteq> []
             then (question_generator c question chat_history,
                   calls @ [Condense_question question chat_history])
             else (question, calls));
          docs = similarity_search c new_question 2;
          ans = combine_docs c docs new_question
      in (Inr \<lparr> result_answer = ans, result_source_documents = docs \<rparr>,
          calls1 @ [Answer_synthesis docs new_question]))"

section \<open>Auxiliary predicates\<close>

text \<open>An event that is the deletion of a tag.\<close>

definition is_deletion :: "event \<Rightarrow> bool" where
  "is_deletion e = (case e of Tag_deleted _ \<Rightarrow> True | _ \<Rightarrow> False)"

text \<open>
  A tag of the file survives the deletion loop over \<open>ts\<close> when it is not among \<open>ts\<close>
  or its deletion fails.
\<close>

definition survives :: "'v services \<Rightarrow> tag list \<Rightarrow> tag \<Rightarrow> bool" where
  "survives sv ts u \<longleftrightarrow> (tag_id u \<in> set (map tag_id ts) \<longrightarrow> delete_raises sv (tag_id u))"

text \<open>
  \<open>w'\<close> comes after \<open>w\<close> by the writes \<open>es\<close>: the history grew by \<open>es\<close>, and every
  status marker the file carries was carried before or written in \<open>es\<close>.
\<close>

definition extends :: "'v world \<Rightarrow> 'v world \<Rightarrow> event list \<Rightarrow> bool" where
  "extends w w' es \<longleftrightarrow>
     history w' = history w @ es \<and>
     set (status_markers w') \<subseteq> set (status_markers w) \<union> set (status_writes es)"

section \<open>Example inputs\<close>

text \<open>
  A transcript of \<open>n\<close> tokens, as the transcriber attaches them: token \<open>i\<close> spans
  \<open>[i, i + 1)\<close>, is said from time \<open>i\<close> to time \<open>i + 1\<close>, and reads \<^verbatim>\<open>w\<close>.
\<close>

definition token :: "nat \<Rightarrow> unit span_tag" where
  "token i =
     \<lparr> tag_id = i, kind = ''timestamp'', name = ''w'',
       start_idx = int i, end_idx = int i + 1,
       tag_value = [''start_time'' \<mapsto> PyInt (int i), ''end_time'' \<mapsto> PyInt (int i + 1)] \<rparr>"

definition tokens :: "nat \<Rightarrow> unit span_tag list" where
  "tokens n = map token [0..<n]"

definition doc3 :: "unit document" where
  "doc3 =
     \<lparr> page_content = ''w w w'',
       metadata = [''start_time'' \<mapsto> PyInt 0, ''end_time'' \<mapsto> PyInt 3,
                   ''start_idx'' \<mapsto> PyInt 2, ''end_idx'' \<mapsto> PyInt 3,
                   ''source'' \<mapsto> PyStr ''https://youtu.be/abc''] \<rparr>"

definition doc1 :: "unit document" where
  "doc1 =
     \<lparr> page_content = ''w'',
       metadata = [''start_time'' \<mapsto> PyInt 0, ''end_time'' \<mapsto> PyInt 1,
                   ''start_idx'' \<mapsto> PyInt 0, ''end_idx'' \<mapsto> PyInt 1,
                   ''source'' \<mapsto> PyStr ''https://youtu.be/abc''] \<rparr>"

text \<open>
  A lecture whose transcription has been submitted: its file carries the source, the
  title and the status marker \<^verbatim>\<open>Transcribing\<close>.
\<close>

definition lecture_transcribing :: "unit world" where
  "lecture_transcribing =
     \<lparr> file_tags =
         [\<lparr> tag_id = 0, kind = ''source'', name = ''https://youtu.be/abc'' \<rparr>,
          \<lparr> tag_id = 1, kind = ''title'', name = ''Lecture 1'' \<rparr>,
          \<lparr> tag_id = 2, kind = ''status'', name = ''Transcribing'' \<rparr>],
       file_blocks = [tokens 3],
       vector_index = [],
       history = [],
       next_id = 3 \<rparr>"

text \<open>A freshly imported file: no tag, no block.\<close>

definition imported_file :: "unit world" where
  "imported_file =
     \<lparr> file_tags = [], file_blocks = [], vector_index = [], history = [], next_id = 0 \<rparr>"

text \<open>Services that never fail, and services whose tag deletions all fail.\<close>

definition reliable :: "unit services" where
  "reliable =
     \<lparr> import_fails = False,
       delete_raises = (\<lambda>i. False),
       create_raises = (\<lambda>k n. False),
       youtube_title = (\<lambda>source. Inr ''Lecture 1''),
       transcription = Inr (tokens 3),
       add_documents_fails_after = None \<rparr>"

definition failing_deletes :: "unit services" where
  "failing_deletes = reliable \<lparr> delete_raises := (\<lambda>i. True) \<rparr>"

text \<open>
  The default configuration, an empty Chat History Store, and two sets of collaborators
  for the chain: a vector store that finds nothing, and one that finds one document, with
  a generation service whose answer comes with surrounding blanks.
\<close>

definition default_config :: config where
  "default_config = \<lparr> index_name = ''lectures'', default_chat_session_id = Some ''default'' \<rparr>"

definition fresh_chat :: "unit qa_world" where
  "fresh_chat = \<lparr> chat_store = (\<lambda>session. []), llm_calls = [] \<rparr>"

definition empty_index :: "unit collaborators" where
  "empty_index =
     \<lparr> question_generator = (\<lambda>question turns. question),
       similarity_search = (\<lambda>query k. []),
       combine_docs = (\<lambda>docs question. ''I do not know.'') \<rparr>"

definition one_lecture_index :: "unit collaborators" where
  "one_lecture_index =
     \<lparr> question_generator = (\<lambda>question turns. question),
       similarity_search = (\<lambda>query k. take k [doc3]),
       combine_docs = (\<lambda>docs question. '' The lecture says w. '') \<rparr>"

text \<open>A store that holds one earlier turn of the default session.\<close>

definition chat_with_turn :: "unit qa_world" where
  "chat_with_turn =
     \<lparr> chat_store =
         (\<lambda>session. if session = Some ''default'' then [(''What is X?'', ''X is a letter.'')]
                     else []),
       llm_calls = [] \<rparr>"

section \<open>Properties of the chunking loop\<close>

lemma py_range_length_iff:
  "0 < step \<Longrightarrow> k < length (py_range start stop step) \<longleftrightarrow> start + k * step < stop"
proof (induction start stop step arbitrary: k rule: py_range.induct)
  case (1 start stop step)
  show ?case
  proof (cases "start < stop")
    case True
    then have unf: "py_range start stop step = start # py_range (start + step) stop step"
      using "1.prems" by simp
    show ?thesis
    proof (cases k)
      case 0
      then show ?thesis using unf True by simp
    next
      case (Suc j)
      have "j < length (py_range (start + step) stop step) \<longleftrightarrow> start + step + j * step < stop"
        using "1.IH" True "1.prems" by simp
      then show ?thesis using unf Suc by (simp add: add.assoc)
    qed
  next
    case False
    then have "py_range start stop step = []"
      by simp
    then show ?thesis using False by simp
  qed
qed

lemma py_range_nth:
  "0 < step \<Longrightarrow> k < length (py_range start stop step) \<Longrightarrow>
     py_range start stop step ! k = start + k * step"
proof (induction start stop step arbitrary: k rule: py_range.induct)
  case (1 start stop step)
  show ?case
  proof (cases "start < stop")
    case True
    then have unf: "py_range start stop step = start # py_range (start + step) stop step"
      using "1.prems"(1) by simp
    show ?thesis
    proof (cases k)
      case 0
      then show ?thesis using unf by simp
    next
      case (Suc j)
      then have "j < length (py_range (start + step) stop step)"
        using "1.prems"(2) unf by simp
      then have "py_range (start + step) stop step ! j = start + step + j * step"
        using "1.IH" True "1.prems"(1) by simp
      then show ?thesis using unf Suc by simp
    qed
  next
    case False
    then show ?thesis using "1.prems" by simp
  qed
qed

lemma stride_value: "context_window_size - context_window_overlap = 150"
  by (simp add: context_window_size_def context_window_overlap_def)

lemma window_starts_length_iff:
  "k < length (window_starts ts) \<longleftrightarrow> k * 150 < length ts"
  unfolding window_starts_def stride_value
  using py_range_length_iff [of 150 k 0 "length ts"] by simp

lemma window_starts_nth:
  "k < length (window_starts ts) \<Longrightarrow> window_starts ts ! k = k * 150"
  unfolding window_starts_def stride_value
  using py_range_nth [of 150 k 0 "length ts"] by simp

lemma length_windows: "length (windows ts) = length (window_starts ts)"
  by (simp add: windows_def)

lemma windows_length_iff: "k < length (windows ts) \<longleftrightarrow> k * 150 < length ts"
  by (simp add: length_windows window_starts_length_iff)

lemma windows_nth:
  "k < length (windows ts) \<Longrightarrow> windows ts ! k = take 200 (drop (k * 150) ts)"
  by (simp add: windows_def window_starts_nth timestamp_tags_window_def
      context_window_size_def)

lemma windows_nth_nonempty: "k < length (windows ts) \<Longrightarrow> windows ts ! k \<noteq> []"
  by (simp add: windows_nth windows_length_iff)

lemma window_overlap_general:
  assumes "Suc k < length (windows ts)"
  shows "drop 150 (windows ts ! k) = take 50 (windows ts ! Suc k)"
proof -
  have k: "k < length (windows ts)"
    using assms by simp
  have "drop 150 (windows ts ! k) = take 50 (drop 150 (drop (k * 150) ts))"
    by (simp add: windows_nth [OF k] drop_take)
  also have "\<dots> = take 50 (take 200 (drop (Suc k * 150) ts))"
    by (simp add: add.commute)
  finally show ?thesis
    by (simp add: windows_nth [OF assms])
qed

lemma length_tokens: "length (tokens n) = n"
  by (simp add: tokens_def)

lemma take_upt_min: "take m [i..<n] = [i..<min n (i + m)]"
proof (cases "i + m \<le> n")
  case True
  then show ?thesis by (simp add: min_def)
next
  case False
  then have "length [i..<n] \<le> m" by simp
  then have "take m [i..<n] = [i..<n]" by (rule take_all)
  then show ?thesis using False by (simp add: min_def)
qed

lemma windows_tokens:
  "k * 150 < n \<Longrightarrow> windows (tokens n) ! k = map token [k * 150..<min n (k * 150 + 200)]"
  by (simp add: windows_nth windows_length_iff length_tokens)
     (simp add: tokens_def drop_map take_map take_upt_min)

subsection \<open>Overlap of consecutive windows\<close>

text \<open>
  Claim C1, as the code has it. For any two consecutive windows of the chunking loop,
  the tokens of window \<open>k\<close> from position 150 (the stride) on are the first 50 tokens of
  window \<open>k + 1\<close>; whenever window \<open>k\<close> is full (200 tokens), these are its last 50
  tokens, so the last 50 tokens of window \<open>k\<close> equal the first 50 tokens of window
  \<open>k + 1\<close>.
\<close>

theorem chunk_overlap:
  assumes "context_window_size < length ts"
    and "Suc k < length (windows ts)"
  shows "drop (context_window_size - context_window_overlap) (windows ts ! k) =
           take context_window_overlap (windows ts ! Suc k) \<and>
         (length (windows ts ! k) = context_window_size \<longrightarrow>
           drop (length (windows ts ! k) - context_window_overlap) (windows ts ! k) =
             take context_window_overlap (windows ts ! Suc k))"
proof -
  have "drop 150 (windows ts ! k) = take 50 (windows ts ! Suc k)"
    using assms(2) by (rule window_overlap_general)
  then have "drop 150 (windows ts ! k) = take context_window_overlap (windows ts ! Suc k)"
    by (simp add: context_window_overlap_def)
  then have general:
    "drop (context_window_size - context_window_overlap) (windows ts ! k) =
       take context_window_overlap (windows ts ! Suc k)"
    by (simp only: stride_value)
  then show ?thesis
    by auto
qed

theorem chunk_overlap_witness:
  "context_window_size < length (tokens 201) \<and>
   Suc 0 < length (windows (tokens 201)) \<and>
   length (windows (tokens 201) ! 0) = context_window_size \<and>
   drop (length (windows (tokens 201) ! 0) - context_window_overlap) (windows (tokens 201) ! 0) =
     take context_window_overlap (windows (tokens 201) ! Suc 0)"
proof -
  have a: "context_window_size < length (tokens 201)"
    by (simp add: length_tokens context_window_size_def)
  have b: "Suc 0 < length (windows (tokens 201))"
    by (simp add: windows_length_iff length_tokens)
  have c: "length (windows (tokens 201) ! 0) = context_window_size"
    using windows_tokens [of 0 201] by (simp add: context_window_size_def del: upt_rec_numeral)
  show ?thesis
    using chunk_overlap [OF a b] a b c by simp
qed

text \<open>
  The claim as stated fails when window \<open>k + 1\<close> is the clipped last window and holds
  fewer than 50 tokens. With 310 tokens the windows start at 0, 150 and 300: the last 50
  tokens of the second window are tokens 260 to 309, the third window is tokens 300 to
  309.
\<close>

theorem chunk_overlap_counterexample:
  "context_window_size < length (tokens 310) \<and>
   2 < length (windows (tokens 310)) \<and>
   drop (length (windows (tokens 310) ! 1) - context_window_overlap) (windows (tokens 310) ! 1) =
     map token [260..<310] \<and>
   take context_window_overlap (windows (tokens 310) ! 2) = map token [300..<310] \<and>
   drop (length (windows (tokens 310) ! 1) - context_window_overlap) (windows (tokens 310) ! 1) \<noteq>
     take context_window_overlap (windows (tokens 310) ! 2)"
proof -
  have w1: "windows (tokens 310) ! 1 = map token [150..<310]"
    using windows_tokens [of 1 310] by (simp del: upt_rec_numeral)
  have w2: "windows (tokens 310) ! 2 = map token [300..<310]"
    using windows_tokens [of 2 310] by (simp del: upt_rec_numeral)
  have l: "drop (length (windows (tokens 310) ! 1) - context_window_overlap)
             (windows (tokens 310) ! 1) = map token [260..<310]"
    unfolding w1 by (simp add: context_window_overlap_def drop_map del: upt_rec_numeral)
  have r: "take context_window_overlap (windows (tokens 310) ! 2) = map token [300..<310]"
    unfolding w2 by (simp add: context_window_overlap_def take_map del: upt_rec_numeral)
  have ne: "map token [260..<310] \<noteq> map token [300..<310]"
  proof
    assume "map token [260..<310] = map token [300..<310]"
    then have "length (map token [260..<310]) = length (map token [300..<310])"
      by (rule arg_cong)
    then show False
      by (simp del: upt_rec_numeral)
  qed
  show ?thesis
    unfolding l r using ne
    by (simp add: length_tokens context_window_size_def windows_length_iff del: upt_rec_numeral)
qed

subsection \<open>What the loop builds\<close>

lemma make_document_Inr:
  assumes "make_document w src = Inr d"
  shows "w \<noteq> [] \<and>
         page_content d = join_space (map name w) \<and>
         metadata d ''start_time'' = tag_value (hd w) ''start_time'' \<and>
         metadata d ''start_time'' \<noteq> None \<and>
         metadata d ''end_time'' = tag_value (last w) ''end_time'' \<and>
         metadata d ''end_time'' \<noteq> None \<and>
         metadata d ''start_idx'' = Some (PyInt (start_idx (last w))) \<and>
         metadata d ''end_idx'' = Some (PyInt (end_idx (last w))) \<and>
         metadata d ''source'' = Some (PyStr src) \<and>
         dom (metadata d) = {''start_time'', ''end_time'', ''start_idx'', ''end_idx'', ''source''}"
proof (cases w)
  case Nil
  then show ?thesis using assms by (simp add: make_document_def)
next
  case (Cons first rest)
  obtain st where st: "tag_value first ''start_time'' = Some st"
    using assms Cons
    by (cases "tag_value first ''start_time''") (simp_all add: make_document_def getitem_def)
  obtain et where et: "tag_value (last w) ''end_time'' = Some et"
    using assms Cons st
    by (cases "tag_value (last w) ''end_time''") (simp_all add: make_document_def getitem_def)
  have d: "d = \<lparr> page_content = join_space (map name w),
                 metadata = [''start_time'' \<mapsto> st, ''end_time'' \<mapsto> et,
                             ''start_idx'' \<mapsto> PyInt (start_idx (last w)),
                             ''end_idx'' \<mapsto> PyInt (end_idx (last w)),
                             ''source'' \<mapsto> PyStr src] \<rparr>"
    using assms Cons st et by (simp add: make_document_def getitem_def)
  have hd: "hd w = first" using Cons by simp
  show ?thesis
    unfolding d hd using Cons st et by auto
qed

lemma make_document_total:
  assumes "w \<noteq> []"
    and "tag_value (hd w) ''start_time'' \<noteq> None"
    and "tag_value (last w) ''end_time'' \<noteq> None"
  shows "\<exists>d. make_document w src = Inr d"
proof -
  obtain first rest where w: "w = first # rest"
    using assms(1) by (cases w) auto
  obtain st where st: "tag_value first ''start_time'' = Some st"
    using assms(2) w by auto
  obtain et where et: "tag_value (last w) ''end_time'' = Some et"
    using assms(3) by auto
  show ?thesis
    using w st et by (simp add: make_document_def getitem_def)
qed

lemma chunk_loop_Inr:
  "chunk_loop starts ts src acc = Inr docs \<Longrightarrow>
     length docs = length acc + length starts \<and>
     take (length acc) docs = acc \<and>
     (\<forall>k<length starts.
        make_document (timestamp_tags_window ts (starts ! k)) src = Inr (docs ! (length acc + k)))"
proof (induction starts arbitrary: acc)
  case Nil
  then show ?case by simp
next
  case (Cons i rest)
  then obtain doc where doc: "make_document (timestamp_tags_window ts i) src = Inr doc"
    and rec: "chunk_loop rest ts src (acc @ [doc]) = Inr docs"
    by (auto split: sum.splits)
  from Cons.IH [OF rec]
  have len: "length docs = length (acc @ [doc]) + length rest"
    and pre: "take (length (acc @ [doc])) docs = acc @ [doc]"
    and each: "\<forall>k<length rest.
        make_document (timestamp_tags_window ts (rest ! k)) src =
          Inr (docs ! (length (acc @ [doc]) + k))"
    by blast+
  have pre': "take (length acc) docs = acc"
  proof -
    have "take (length acc) (take (length (acc @ [doc])) docs) = take (length acc) (acc @ [doc])"
      by (simp only: pre)
    then show ?thesis by (simp add: min_def)
  qed
  have here: "docs ! length acc = doc"
  proof -
    have "docs ! length acc = take (length (acc @ [doc])) docs ! length acc"
      by simp
    also have "\<dots> = (acc @ [doc]) ! length acc"
      by (simp only: pre)
    finally show ?thesis by simp
  qed
  have "make_document (timestamp_tags_window ts ((i # rest) ! k)) src =
          Inr (docs ! (length acc + k))" if "k < length (i # rest)" for k
  proof (cases k)
    case 0
    then show ?thesis using doc here by simp
  next
    case (Suc j)
    then have "j < length rest" using that by simp
    then show ?thesis using each Suc by simp
  qed
  then show ?case using len pre' by simp
qed

lemma chunk_loop_total:
  "(\<And>i. i \<in> set starts \<Longrightarrow> \<exists>d. make_document (timestamp_tags_window ts i) src = Inr d) \<Longrightarrow>
     \<exists>docs. chunk_loop starts ts src acc = Inr docs"
proof (induction starts arbitrary: acc)
  case Nil
  then show ?case by simp
next
  case (Cons i rest)
  obtain d where d: "make_document (timestamp_tags_window ts i) src = Inr d"
    using Cons.prems [of i] by auto
  have "\<exists>docs. chunk_loop rest ts src (acc @ [d]) = Inr docs"
    by (rule Cons.IH) (simp add: Cons.prems)
  then show ?case using d by simp
qed

lemma chunk_documents_Inr:
  assumes "chunk_documents ts src = Inr docs"
  shows "length docs = length (windows ts)"
    and "k < length docs \<Longrightarrow> make_document (windows ts ! k) src = Inr (docs ! k)"
proof -
  note r = chunk_loop_Inr [OF assms [unfolded chunk_documents_def]]
  show l: "length docs = length (windows ts)"
    using r by (simp add: length_windows)
  show "make_document (windows ts ! k) src = Inr (docs ! k)" if "k < length docs"
    using r that l by (simp add: windows_def length_windows)
qed

lemma window_tags_of_sequence:
  assumes "k < length (windows ts)"
  shows "hd (windows ts ! k) \<in> set ts" and "last (windows ts ! k) \<in> set ts"
proof -
  have ne: "windows ts ! k \<noteq> []"
    using assms by (rule windows_nth_nonempty)
  have sub: "set (windows ts ! k) \<subseteq> set ts"
    unfolding windows_nth [OF assms]
    using set_take_subset set_drop_subset by fast
  show "hd (windows ts ! k) \<in> set ts"
    using hd_in_set [OF ne] sub by blast
  show "last (windows ts ! k) \<in> set ts"
    using last_in_set [OF ne] sub by blast
qed

lemma chunk_documents_total:
  assumes "\<forall>t\<in>set ts. tag_value t ''start_time'' \<noteq> None \<and> tag_value t ''end_time'' \<noteq> None"
  shows "\<exists>docs. chunk_documents ts src = Inr docs"
  unfolding chunk_documents_def
proof (rule chunk_loop_total)
  fix i
  assume "i \<in> set (window_starts ts)"
  then obtain k where k: "k < length (window_starts ts)" and i: "window_starts ts ! k = i"
    by (auto simp: in_set_conv_nth)
  have kw: "k < length (windows ts)"
    using k by (simp add: length_windows)
  have w: "timestamp_tags_window ts i = windows ts ! k"
    using k i by (simp add: windows_def)
  show "\<exists>d. make_document (timestamp_tags_window ts i) src = Inr d"
    unfolding w
    using windows_nth_nonempty [OF kw] window_tags_of_sequence [OF kw] assms
    by (intro make_document_total) auto
qed

lemma index_covered:
  assumes "j < length ts"
  shows "j div 150 < length (windows ts) \<and> j div 150 * 150 \<le> j \<and>
         j - j div 150 * 150 < length (windows ts ! (j div 150)) \<and>
         windows ts ! (j div 150) ! (j - j div 150 * 150) = ts ! j"
proof -
  let ?k = "j div 150"
  have le: "?k * 150 \<le> j" by simp
  have lt: "j - ?k * 150 < 150"
    by (simp add: minus_div_mult_eq_mod)
  have k: "?k < length (windows ts)"
    using le assms by (simp add: windows_length_iff)
  have len: "j - ?k * 150 < length (windows ts ! ?k)"
    using lt le assms by (simp add: windows_nth [OF k])
  have "windows ts ! ?k ! (j - ?k * 150) = ts ! j"
    using lt le assms by (simp add: windows_nth [OF k])
  then show ?thesis using k le len by simp
qed

lemma upt_3: "[0..<3] = [0, 1, 2::nat]"
  by code_simp

lemma tokens_3: "tokens 3 = [token 0, token 1, token 2]"
  unfolding tokens_def upt_3 by simp

lemma window_starts_3: "window_starts (tokens 3) = [0]"
  by (simp add: window_starts_def length_tokens stride_value)

lemma window_tokens_3: "timestamp_tags_window (tokens 3) 0 = [token 0, token 1, token 2]"
  by (simp add: timestamp_tags_window_def tokens_3 context_window_size_def)

lemma make_document_tokens_3:
  "make_document [token 0, token 1, token 2] ''https://youtu.be/abc'' = Inr doc3"
  by (simp add: make_document_def getitem_def token_def doc3_def)

lemma chunk_tokens_3: "chunk_documents (tokens 3) ''https://youtu.be/abc'' = Inr [doc3]"
  by (simp only: chunk_documents_def window_starts_3 chunk_loop.simps window_tokens_3
      make_document_tokens_3 sum.case append_Nil)

lemma window_starts_1: "window_starts (tokens 1) = [0]"
  by (simp add: window_starts_def length_tokens stride_value)

lemma tokens_1: "tokens 1 = [token 0]"
  by (simp add: tokens_def)

lemma window_tokens_1: "timestamp_tags_window (tokens 1) 0 = [token 0]"
  unfolding tokens_1 by (simp add: timestamp_tags_window_def context_window_size_def)

lemma make_document_tokens_1:
  "make_document [token 0] ''https://youtu.be/abc'' = Inr doc1"
  by (simp add: make_document_def getitem_def token_def doc1_def)

lemma chunk_tokens_1: "chunk_documents (tokens 1) ''https://youtu.be/abc'' = Inr [doc1]"
  by (simp only: chunk_documents_def window_starts_1 chunk_loop.simps window_tokens_1
      make_document_tokens_1 sum.case append_Nil)

subsection \<open>The fields of a chunk\<close>

text \<open>
  Claim C4. Every document the chunking loop of \<^verbatim>\<open>index_lecture\<close> produces is built
  from one window: its \<^verbatim>\<open>page_content\<close> is the window's token texts joined by single
  spaces, its \<^verbatim>\<open>start_time\<close> is the one of the window's first token, its
  \<^verbatim>\<open>end_time\<close>, \<^verbatim>\<open>start_idx\<close> and \<^verbatim>\<open>end_idx\<close> are those of the window's last
  token, and its \<^verbatim>\<open>source\<close> is the source identifier passed in; the metadata has no
  other entry.
\<close>

theorem chunk_document_fields:
  assumes "chunk_documents ts source = Inr docs"
    and "k < length docs"
  shows "k < length (windows ts) \<and> windows ts ! k \<noteq> [] \<and>
         page_content (docs ! k) = join_space (map name (windows ts ! k)) \<and>
         metadata (docs ! k) ''start_time'' = tag_value (hd (windows ts ! k)) ''start_time'' \<and>
         metadata (docs ! k) ''start_time'' \<noteq> None \<and>
         metadata (docs ! k) ''end_time'' = tag_value (last (windows ts ! k)) ''end_time'' \<and>
         metadata (docs ! k) ''end_time'' \<noteq> None \<and>
         metadata (docs ! k) ''start_idx'' = Some (PyInt (start_idx (last (windows ts ! k)))) \<and>
         metadata (docs ! k) ''end_idx'' = Some (PyInt (end_idx (last (windows ts ! k)))) \<and>
         metadata (docs ! k) ''source'' = Some (PyStr source) \<and>
         dom (metadata (docs ! k)) =
           {''start_time'', ''end_time'', ''start_idx'', ''end_idx'', ''source''}"
proof -
  have k: "k < length (windows ts)"
    using chunk_documents_Inr(1) [OF assms(1)] assms(2) by simp
  have "make_document (windows ts ! k) source = Inr (docs ! k)"
    using assms by (rule chunk_documents_Inr(2))
  from make_document_Inr [OF this] k show ?thesis
    by blast
qed

theorem chunk_document_fields_witness: 
  "chunk_documents (tokens 3) ''https://youtu.be/abc'' = Inr [doc3] \<and>
   (0::nat) < length [doc3] \<and>
   windows (tokens 3) ! 0 = [token 0, token 1, token 2] \<and>
   page_content ([doc3] ! 0) = ''w w w'' \<and>
   metadata ([doc3] ! 0) ''start_time'' = Some (PyInt 0) \<and>
   metadata ([doc3] ! 0) ''end_time'' = Some (PyInt 3) \<and>
   metadata ([doc3] ! 0) ''start_idx'' = Some (PyInt 2) \<and>
   metadata ([doc3] ! 0) ''end_idx'' = Some (PyInt 3) \<and>
   metadata ([doc3] ! 0) ''source'' = Some (PyStr ''https://youtu.be/abc'')"
proof -
  have w: "windows (tokens 3) ! 0 = [token 0, token 1, token 2]"
    by (simp add: windows_def window_starts_3 window_tokens_3)
  have l: "(0::nat) < length [doc3]" by simp
  show ?thesis
    using chunk_document_fields [OF chunk_tokens_3 l] chunk_tokens_3 w l
    by (simp add: token_def)
qed

subsection \<open>Every token is in a chunk\<close>

text \<open>
  Claim C5. Every index below the length of the token sequence lies in a window of the
  loop: token \<open>j\<close> is the token at position \<open>j - 150 k\<close> of window \<open>k\<close> for some
  \<open>k\<close>. For tokens that carry their times the loop returns one document per window,
  holding the window's joined text, so every token is in a chunk; a sequence of one token
  then gives exactly one window, the sequence itself, and one document, whose text is
  that token's. The order of the sequence plays no role, so the sequence sorted by
  \<^verbatim>\<open>start_idx\<close> that \<^verbatim>\<open>index_lecture\<close> passes is covered.
\<close>

theorem every_token_in_a_chunk:
  "(\<forall>j<length ts. \<exists>k<length (windows ts).
      k * 150 \<le> j \<and> j - k * 150 < length (windows ts ! k) \<and>
      windows ts ! k ! (j - k * 150) = ts ! j) \<and>
   ((\<forall>t\<in>set ts. tag_value t ''start_time'' \<noteq> None \<and> tag_value t ''end_time'' \<noteq> None) \<longrightarrow>
      (\<exists>docs. chunk_documents ts source = Inr docs \<and>
         length docs = length (windows ts) \<and>
         (\<forall>k<length docs.
            page_content (docs ! k) = join_space (map name (windows ts ! k))) \<and>
         (length ts = 1 \<longrightarrow>
            length docs = 1 \<and> windows ts = [ts] \<and>
            page_content (docs ! 0) = name (ts ! 0))))"
proof (intro conjI impI allI)
  fix j
  assume "j < length ts"
  from index_covered [OF this]
  show "\<exists>k<length (windows ts).
      k * 150 \<le> j \<and> j - k * 150 < length (windows ts ! k) \<and>
      windows ts ! k ! (j - k * 150) = ts ! j"
    by blast
next
  assume wf: "\<forall>t\<in>set ts. tag_value t ''start_time'' \<noteq> None \<and> tag_value t ''end_time'' \<noteq> None"
  obtain docs where docs: "chunk_documents ts source = Inr docs"
    using chunk_documents_total [OF wf] by blast
  have len: "length docs = length (windows ts)"
    using docs by (rule chunk_documents_Inr(1))
  have page: "page_content (docs ! k) = join_space (map name (windows ts ! k))"
    if "k < length docs" for k
    using make_document_Inr [OF chunk_documents_Inr(2) [OF docs that]] by blast
  have single: "length docs = 1 \<and> windows ts = [ts] \<and> page_content (docs ! 0) = name (ts ! 0)"
    if one: "length ts = 1"
  proof -
    obtain t where t: "ts = [t]"
      using one by (cases ts) auto
    have n: "length (windows ts) = 1"
    proof -
      have "0 < length (windows ts)"
        unfolding windows_length_iff using one by simp
      moreover have "\<not> 1 < length (windows ts)"
        unfolding windows_length_iff using one by simp
      ultimately show ?thesis by linarith
    qed
    have w0: "windows ts ! 0 = ts"
      using n one by (simp add: windows_nth)
    have w: "windows ts = [ts]"
      using n w0 by (cases "windows ts") auto
    have "page_content (docs ! 0) = join_space (map name (windows ts ! 0))"
      using page [of 0] len n by simp
    then show ?thesis using len n w t by simp
  qed
  show "\<exists>docs. chunk_documents ts source = Inr docs \<and>
         length docs = length (windows ts) \<and>
         (\<forall>k<length docs.
            page_content (docs ! k) = join_space (map name (windows ts ! k))) \<and>
         (length ts = 1 \<longrightarrow>
            length docs = 1 \<and> windows ts = [ts] \<and>
            page_content (docs ! 0) = name (ts ! 0))"
    using docs len page single by blast
qed

theorem every_token_in_a_chunk_witness:
  "length (tokens 1) = 1 \<and>
   chunk_documents (tokens 1) ''https://youtu.be/abc'' = Inr [doc1] \<and>
   windows (tokens 1) = [[token 0]] \<and>
   page_content doc1 = name (token 0)"
proof -
  have h: "\<forall>t\<in>set (tokens 1).
             tag_value t ''start_time'' \<noteq> None \<and> tag_value t ''end_time'' \<noteq> None"
    unfolding tokens_1 by (simp add: token_def)
  obtain docs where
    docs: "chunk_documents (tokens 1) ''https://youtu.be/abc'' = Inr docs"
    and single: "length (tokens 1) = 1 \<longrightarrow>
      length docs = 1 \<and> windows (tokens 1) = [tokens 1] \<and>
      page_content (docs ! 0) = name (tokens 1 ! 0)"
    using every_token_in_a_chunk [of "tokens 1" "''https://youtu.be/abc''"] h by blast
  have d: "docs = [doc1]"
    using docs chunk_tokens_1 by simp
  have one: "length (tokens 1) = 1"
    by (simp add: length_tokens)
  have "windows (tokens 1) = [tokens 1]"
    using single one by blast
  then have w: "windows (tokens 1) = [[token 0]]"
    unfolding tokens_1 .
  have p: "page_content doc1 = name (token 0)"
    by (simp add: doc1_def token_def)
  show ?thesis
    using one chunk_tokens_1 w p by blast
qed

subsection \<open>The empty transcript\<close>

text \<open>
  Claim C6. On an empty token sequence the chunking step of \<^verbatim>\<open>index_lecture\<close>
  returns the empty list of documents and raises nothing: there is no window, and
  sorting the timestamp tags of a block without tags gives the empty sequence.
\<close>

theorem chunk_empty:
  "chunk_documents [] source = Inr [] \<and> windows [] = [] \<and> sorted_timestamps [] = []"
  by (simp add: chunk_documents_def windows_def window_starts_def sorted_timestamps_def)


section \<open>Status markers\<close>

lemma Tag_delete_cases:
  "Tag_delete sv t w = (Inl SteamshipError, w) \<and>
     (tag_id t \<notin> set (map tag_id (file_tags w)) \<or> delete_raises sv (tag_id t)) \<or>
   Tag_delete sv t w =
     (Inr (), w\<lparr> file_tags := filter (\<lambda>u. tag_id u \<noteq> tag_id t) (file_tags w),
                  history := history w @ [Tag_deleted (tag_id t)] \<rparr>) \<and>
     tag_id t \<in> set (map tag_id (file_tags w)) \<and> \<not> delete_raises sv (tag_id t)"
  by (simp add: Tag_delete_def)

lemma survives_raised:
  assumes "tag_id t \<notin> set (map tag_id tags) \<or> delete_raises sv (tag_id t)"
  shows "filter (survives sv (t # rest)) tags = filter (survives sv rest) tags"
proof (intro filter_cong refl)
  fix u
  assume u: "u \<in> set tags"
  show "survives sv (t # rest) u = survives sv rest u"
  proof (cases "tag_id u = tag_id t")
    case True
    then have "tag_id t \<in> set (map tag_id tags)"
      using u by (metis image_eqI set_map)
    then have "delete_raises sv (tag_id t)"
      using assms by blast
    then show ?thesis using True by (simp add: survives_def)
  next
    case False
    then show ?thesis by (simp add: survives_def)
  qed
qed

lemma survives_deleted:
  assumes "\<not> delete_raises sv (tag_id t)"
  shows "filter (\<lambda>u. tag_id u \<noteq> tag_id t \<and> survives sv rest u) tags =
         filter (survives sv (t # rest)) tags"
proof (intro filter_cong refl)
  fix u
  show "(tag_id u \<noteq> tag_id t \<and> survives sv rest u) = survives sv (t # rest) u"
    using assms by (cases "tag_id u = tag_id t") (simp_all add: survives_def)
qed

lemma delete_status_tags_effect:
  "\<exists>ds. delete_status_tags sv ts w =
     (Inr (), w\<lparr> file_tags := filter (survives sv ts) (file_tags w),
                  history := history w @ ds \<rparr>) \<and>
     (\<forall>e\<in>set ds. is_deletion e)"
proof (induction ts arbitrary: w)
  case Nil
  have "filter (survives sv []) (file_tags w) = file_tags w"
    by (simp add: survives_def)
  then have "delete_status_tags sv [] w =
     (Inr (), w\<lparr> file_tags := filter (survives sv []) (file_tags w),
                  history := history w @ [] \<rparr>)"
    by simp
  then show ?case by (intro exI [of _ "[]"]) simp
next
  case (Cons t rest)
  consider
    (raised) "Tag_delete sv t w = (Inl SteamshipError, w)"
      "tag_id t \<notin> set (map tag_id (file_tags w)) \<or> delete_raises sv (tag_id t)"
  | (deleted) "Tag_delete sv t w =
       (Inr (), w\<lparr> file_tags := filter (\<lambda>u. tag_id u \<noteq> tag_id t) (file_tags w),
                    history := history w @ [Tag_deleted (tag_id t)] \<rparr>)"
      "tag_id t \<in> set (map tag_id (file_tags w))" "\<not> delete_raises sv (tag_id t)"
    using Tag_delete_cases [of sv t w] by blast
  then show ?case
  proof cases
    case raised
    obtain ds where ds: "delete_status_tags sv rest w =
       (Inr (), w\<lparr> file_tags := filter (survives sv rest) (file_tags w),
                    history := history w @ ds \<rparr>)" and del: "\<forall>e\<in>set ds. is_deletion e"
      using Cons.IH [of w] by blast
    have "delete_status_tags sv (t # rest) w =
       (Inr (), w\<lparr> file_tags := filter (survives sv (t # rest)) (file_tags w),
                    history := history w @ ds \<rparr>)"
      using raised(1) ds by (simp add: survives_raised [OF raised(2)])
    then show ?thesis using del by blast
  next
    case deleted
    let ?w1 = "w\<lparr> file_tags := filter (\<lambda>u. tag_id u \<noteq> tag_id t) (file_tags w),
                    history := history w @ [Tag_deleted (tag_id t)] \<rparr>"
    obtain ds where ds: "delete_status_tags sv rest ?w1 =
       (Inr (), ?w1\<lparr> file_tags := filter (survives sv rest) (file_tags ?w1),
                      history := history ?w1 @ ds \<rparr>)" and del: "\<forall>e\<in>set ds. is_deletion e"
      using Cons.IH [of ?w1] by blast
    have "delete_status_tags sv (t # rest) w =
       (Inr (), w\<lparr> file_tags := filter (survives sv (t # rest)) (file_tags w),
                    history := history w @ (Tag_deleted (tag_id t) # ds) \<rparr>)"
      using deleted(1) ds by (simp add: survives_deleted [OF deleted(3)])
    moreover have "\<forall>e\<in>set (Tag_deleted (tag_id t) # ds). is_deletion e"
      using del by (simp add: is_deletion_def)
    ultimately show ?thesis by blast
  qed
qed

lemma update_file_status_effect:
  "\<exists>ds. (\<forall>e\<in>set ds. is_deletion e) \<and>
     update_file_status sv status w =
       (if create_raises sv ''status'' status then
          (Inl SteamshipError,
           w\<lparr> file_tags :=
                filter (survives sv (filter (\<lambda>tag. kind tag = ''status'') (file_tags w)))
                  (file_tags w),
              history := history w @ ds \<rparr>)
        else
          (Inr (),
           w\<lparr> file_tags :=
                filter (survives sv (filter (\<lambda>tag. kind tag = ''status'') (file_tags w)))
                  (file_tags w) @
                [\<lparr> tag_id = next_id w, kind = ''status'', name = status \<rparr>],
              history := history w @ ds @ [Tag_created ''status'' status],
              next_id := Suc (next_id w) \<rparr>))"
proof -
  obtain ds where ds: "delete_status_tags sv (filter (\<lambda>tag. kind tag = ''status'') (file_tags w)) w =
       (Inr (), w\<lparr> file_tags := filter (survives sv (filter (\<lambda>tag. kind tag = ''status'') (file_tags w))) (file_tags w),
                    history := history w @ ds \<rparr>)" and del: "\<forall>e\<in>set ds. is_deletion e"
    using delete_status_tags_effect by blast
  show ?thesis
    using del by (intro exI [of _ ds]) (simp add: update_file_status_def ds Tag_create_def)
qed

lemma status_survivors:
  "filter (\<lambda>u. survives sv (filter (\<lambda>tag. kind tag = ''status'') tags) u \<and> kind u = ''status'')
     tags =
   filter (\<lambda>t. kind t = ''status'' \<and> delete_raises sv (tag_id t)) tags"
proof (intro filter_cong refl)
  fix u
  assume "u \<in> set tags"
  then show "(survives sv (filter (\<lambda>tag. kind tag = ''status'') tags) u \<and> kind u = ''status'') =
        (kind u = ''status'' \<and> delete_raises sv (tag_id u))"
    by (auto simp: survives_def)
qed

text \<open>
  Claim C7, as the code has it. \<^verbatim>\<open>_update_file_status\<close> asks the backend to delete
  every status marker of the file before it creates the new one, and a deletion that
  raises \<^verbatim>\<open>SteamshipError\<close> is swallowed: the update completes exactly when the
  creation of the new marker does, whatever the deletions did. After a completed update
  the file carries the markers whose deletion failed, followed by the new marker; so it
  carries exactly one status marker when no deletion of a marker failed. Everything the
  update writes before the new marker is a deletion.
\<close>

theorem update_file_status_markers:
  "(fst (update_file_status sv status w) = Inr ()) = (\<not> create_raises sv ''status'' status) \<and>
   (fst (update_file_status sv status w) = Inr () \<longrightarrow>
      status_markers (snd (update_file_status sv status w)) =
        map name (filter (\<lambda>t. kind t = ''status'' \<and> delete_raises sv (tag_id t)) (file_tags w))
          @ [status]) \<and>
   (fst (update_file_status sv status w) = Inr () \<and>
    (\<forall>t\<in>set (file_tags w). kind t = ''status'' \<longrightarrow> \<not> delete_raises sv (tag_id t)) \<longrightarrow>
      status_markers (snd (update_file_status sv status w)) = [status]) \<and>
   (fst (update_file_status sv status w) = Inr () \<longrightarrow>
      (\<exists>ds. list_all is_deletion ds \<and>
         history (snd (update_file_status sv status w)) =
           history w @ ds @ [Tag_created ''status'' status]))"
proof -
  obtain ds where u: "update_file_status sv status w =
       (if create_raises sv ''status'' status then
          (Inl SteamshipError,
           w\<lparr> file_tags :=
                filter (survives sv (filter (\<lambda>tag. kind tag = ''status'') (file_tags w)))
                  (file_tags w),
              history := history w @ ds \<rparr>)
        else
          (Inr (),
           w\<lparr> file_tags :=
                filter (survives sv (filter (\<lambda>tag. kind tag = ''status'') (file_tags w)))
                  (file_tags w) @
                [\<lparr> tag_id = next_id w, kind = ''status'', name = status \<rparr>],
              history := history w @ ds @ [Tag_created ''status'' status],
              next_id := Suc (next_id w) \<rparr>))"
    and del: "\<forall>e\<in>set ds. is_deletion e"
    using update_file_status_effect by blast
  have a: "(fst (update_file_status sv status w) = Inr ()) = (\<not> create_raises sv ''status'' status)"
    by (simp add: u)
  have b: "status_markers (snd (update_file_status sv status w)) =
        map name (filter (\<lambda>t. kind t = ''status'' \<and> delete_raises sv (tag_id t)) (file_tags w))
          @ [status]" if "fst (update_file_status sv status w) = Inr ()"
    using that a by (simp add: u status_markers_def status_survivors)
  have c: "filter (\<lambda>t. kind t = ''status'' \<and> delete_raises sv (tag_id t)) (file_tags w) = []"
    if "\<forall>t\<in>set (file_tags w). kind t = ''status'' \<longrightarrow> \<not> delete_raises sv (tag_id t)"
    using that by (simp add: filter_empty_conv)
  have d: "\<exists>ds. list_all is_deletion ds \<and>
         history (snd (update_file_status sv status w)) =
           history w @ ds @ [Tag_created ''status'' status]"
    if "fst (update_file_status sv status w) = Inr ()"
    using that a del by (intro exI [of _ ds]) (simp add: u list_all_iff)
  show ?thesis
    using a b c d by simp
qed

theorem update_file_status_markers_witness:
  "fst (update_file_status reliable ''Indexing'' lecture_transcribing) = Inr () \<and>
   status_markers lecture_transcribing = [''Transcribing''] \<and>
   status_markers (snd (update_file_status reliable ''Indexing'' lecture_transcribing)) =
     [''Indexing'']"
proof -
  have a: "\<not> create_raises reliable ''status'' ''Indexing''"
    by (simp add: reliable_def)
  have b: "\<forall>t\<in>set (file_tags lecture_transcribing).
             kind t = ''status'' \<longrightarrow> \<not> delete_raises reliable (tag_id t)"
    by (simp add: reliable_def)
  have c: "status_markers lecture_transcribing = [''Transcribing'']"
    by (simp add: status_markers_def lecture_transcribing_def)
  show ?thesis
    using update_file_status_markers [of reliable "''Indexing''" lecture_transcribing] a b c
    by blast
qed

text \<open>
  When the deletion of the old marker fails and leaves it in place, the update still
  completes, and the file then carries two status markers.
\<close>

theorem update_file_status_markers_counterexample:
  "fst (update_file_status failing_deletes ''Indexing'' lecture_transcribing) = Inr () \<and>
   status_markers (snd (update_file_status failing_deletes ''Indexing'' lecture_transcribing)) =
     [''Transcribing'', ''Indexing''] \<and>
   length (status_markers
     (snd (update_file_status failing_deletes ''Indexing'' lecture_transcribing))) \<noteq> 1"
  by (simp add: update_file_status_def Tag_delete_def Tag_create_def status_markers_def
      failing_deletes_def reliable_def lecture_transcribing_def)

section \<open>The order of the status markers\<close>

lemma status_writes_append: "status_writes (xs @ ys) = status_writes xs @ status_writes ys"
  by (induction xs rule: status_writes.induct) simp_all

lemma status_writes_milestones: "status_writes (milestones es) = status_writes es"
  unfolding milestones_def by (induction es rule: status_writes.induct) simp_all

lemma milestones_append: "milestones (xs @ ys) = milestones xs @ milestones ys"
  by (simp add: milestones_def)

lemma deletions_no_milestone:
  "\<forall>e\<in>set ds. is_deletion e \<Longrightarrow> milestones ds = []"
  unfolding milestones_def
proof (induction ds)
  case Nil
  then show ?case by simp
next
  case (Cons e ds)
  then show ?case by (cases e) (simp_all add: is_deletion_def)
qed

lemma deletions_no_status_write:
  "\<forall>e\<in>set ds. is_deletion e \<Longrightarrow> status_writes ds = []"
  using deletions_no_milestone [of ds] status_writes_milestones [of ds] by simp

lemma extends_refl: "extends w w []"
  by (simp add: extends_def)

lemma extends_trans:
  "extends w w1 es1 \<Longrightarrow> extends w1 w2 es2 \<Longrightarrow> extends w w2 (es1 @ es2)"
  unfolding extends_def status_writes_append by auto

lemma Tag_create_extends:
  assumes "Tag_create sv k n w = (r, w')"
  shows "(r = Inl SteamshipError \<and> w' = w) \<or>
         (r = Inr () \<and> extends w w' [Tag_created k n] \<and> file_blocks w' = file_blocks w)"
  using assms
  by (auto simp: Tag_create_def extends_def status_markers_def split: if_splits)

lemma update_file_status_extends:
  assumes "update_file_status sv status w = (r, w')"
  shows "\<exists>es. extends w w' es \<and> file_blocks w' = file_blocks w \<and>
           (r = Inr () \<and> milestones es = [Tag_created ''status'' status] \<or>
            r = Inl SteamshipError \<and> milestones es = [])"
proof -
  let ?kept = "filter (survives sv (filter (\<lambda>tag. kind tag = ''status'') (file_tags w)))
                  (file_tags w)"
  obtain ds where del: "\<forall>e\<in>set ds. is_deletion e"
    and u: "update_file_status sv status w =
       (if create_raises sv ''status'' status then
          (Inl SteamshipError, w\<lparr> file_tags := ?kept, history := history w @ ds \<rparr>)
        else
          (Inr (),
           w\<lparr> file_tags := ?kept @ [\<lparr> tag_id = next_id w, kind = ''status'', name = status \<rparr>],
              history := history w @ ds @ [Tag_created ''status'' status],
              next_id := Suc (next_id w) \<rparr>))"
    using update_file_status_effect by blast
  have sub: "set (map name (filter (\<lambda>tag. kind tag = ''status'') ?kept)) \<subseteq> set (status_markers w)"
    by (auto simp: status_markers_def)
  have m: "milestones ds = []" and sw: "status_writes ds = []"
    using del by (simp_all add: deletions_no_milestone deletions_no_status_write)
  show ?thesis
  proof (cases "create_raises sv ''status'' status")
    case True
    then have r: "r = Inl SteamshipError"
      and w': "w' = w\<lparr> file_tags := ?kept, history := history w @ ds \<rparr>"
      using assms u by simp_all
    have "extends w w' ds"
      using sub unfolding extends_def w' by (auto simp: status_markers_def)
    then show ?thesis using r m w' by (intro exI [of _ ds]) simp
  next
    case False
    then have r: "r = Inr ()"
      and w': "w' = w\<lparr> file_tags := ?kept @ [\<lparr> tag_id = next_id w, kind = ''status'', name = status \<rparr>],
              history := history w @ ds @ [Tag_created ''status'' status],
              next_id := Suc (next_id w) \<rparr>"
      using assms u by simp_all
    have "extends w w' (ds @ [Tag_created ''status'' status])"
      using sub unfolding extends_def w'
      by (auto simp: status_markers_def status_writes_append)
    moreover have "milestones (ds @ [Tag_created ''status'' status]) = [Tag_created ''status'' status]"
      using m by (simp add: milestones_append) (simp add: milestones_def)
    ultimately show ?thesis using r w' by (intro exI [of _ "ds @ [Tag_created ''status'' status]"]) simp
  qed
qed

lemma add_documents_extends:
  assumes "add_documents sv docs w = (r, w')"
  shows "\<exists>es. extends w w' es \<and> file_blocks w' = file_blocks w \<and>
           (r = Inr () \<and> milestones es = [Documents_added (length docs)] \<or>
            r = Inl SteamshipError \<and> milestones es = [])"
proof (cases "add_documents_fails_after sv")
  case None
  then have "extends w w' [Documents_added (length docs)]" "r = Inr ()" "file_blocks w' = file_blocks w"
    using assms by (auto simp: add_documents_def extends_def status_markers_def)
  then show ?thesis by (intro exI [of _ "[Documents_added (length docs)]"]) (simp add: milestones_def)
next
  case (Some n)
  then have "extends w w' []" "r = Inl SteamshipError" "file_blocks w' = file_blocks w"
    using assms by (auto simp: add_documents_def extends_def status_markers_def)
  then show ?thesis by (intro exI [of _ "[]"]) (simp add: milestones_def)
qed

lemma index_lecture_extends:
  assumes "index_lecture sv src w = (r, w')"
  shows "\<exists>es n. extends w w' es \<and>
           (r = Inr True \<and>
              milestones es = [Tag_created ''status'' ''Indexing'', Documents_added n,
                               Tag_created ''status'' ''Indexed''] \<or>
            (\<exists>e. r = Inl e) \<and>
              (milestones es = [] \<or>
               milestones es = [Tag_created ''status'' ''Indexing''] \<or>
               milestones es = [Tag_created ''status'' ''Indexing'', Documents_added n]))"
proof -
  obtain r1 w1 where u1: "update_file_status sv ''Indexing'' w = (r1, w1)"
    by (cases "update_file_status sv ''Indexing'' w") auto
  obtain es1 where e1: "extends w w1 es1"
    and m1: "r1 = Inr () \<and> milestones es1 = [Tag_created ''status'' ''Indexing''] \<or>
             r1 = Inl SteamshipError \<and> milestones es1 = []"
    using update_file_status_extends [OF u1] by blast
  show ?thesis
  proof (cases r1)
    case (Inl e)
    then have "r = Inl e" "w' = w1"
      using assms u1 by (simp_all add: index_lecture_def)
    then show ?thesis using e1 m1 Inl by blast
  next
    case (Inr u)
    then have ms1: "milestones es1 = [Tag_created ''status'' ''Indexing'']"
      using m1 by auto
    show ?thesis
    proof (cases "file_blocks w1")
      case Nil
      then have "r = Inl IndexError" "w' = w1"
        using assms u1 Inr by (simp_all add: index_lecture_def)
      then show ?thesis using e1 ms1 by blast
    next
      case (Cons tags rest)
      show ?thesis
      proof (cases "chunk_documents (sorted_timestamps tags) src")
        case (Inl e)
        then have "r = Inl e" "w' = w1"
          using assms u1 Inr Cons by (simp_all add: index_lecture_def)
        then show ?thesis using e1 ms1 by blast
      next
        case docs: (Inr documents)
        obtain r2 w2 where a2: "add_documents sv documents w1 = (r2, w2)"
          by (cases "add_documents sv documents w1") auto
        obtain es2 where e2: "extends w1 w2 es2"
          and m2: "r2 = Inr () \<and> milestones es2 = [Documents_added (length documents)] \<or>
                   r2 = Inl SteamshipError \<and> milestones es2 = []"
          using add_documents_extends [OF a2] by blast
        have e12: "extends w w2 (es1 @ es2)"
          using e1 e2 by (rule extends_trans)
        show ?thesis
        proof (cases r2)
          case (Inl e)
          then have "r = Inl e" "w' = w2"
            using assms u1 Inr Cons docs a2 by (simp_all add: index_lecture_def)
          moreover have "milestones (es1 @ es2) = [Tag_created ''status'' ''Indexing'']"
            using ms1 m2 Inl by (auto simp: milestones_append)
          ultimately show ?thesis using e12 by blast
        next
          case r2: (Inr u2)
          then have ms2: "milestones es2 = [Documents_added (length documents)]"
            using m2 by auto
          obtain r3 w3 where u3: "update_file_status sv ''Indexed'' w2 = (r3, w3)"
            by (cases "update_file_status sv ''Indexed'' w2") auto
          obtain es3 where e3: "extends w2 w3 es3"
            and m3: "r3 = Inr () \<and> milestones es3 = [Tag_created ''status'' ''Indexed''] \<or>
                     r3 = Inl SteamshipError \<and> milestones es3 = []"
            using update_file_status_extends [OF u3] by blast
          have e123: "extends w w3 ((es1 @ es2) @ es3)"
            using e12 e3 by (rule extends_trans)
          show ?thesis
          proof (cases r3)
            case (Inl e)
            then have "r = Inl e" "w' = w3"
              using assms u1 Inr Cons docs a2 r2 u3 by (simp_all add: index_lecture_def)
            moreover have "milestones ((es1 @ es2) @ es3) =
                [Tag_created ''status'' ''Indexing'', Documents_added (length documents)]"
              using ms1 ms2 m3 Inl by (auto simp: milestones_append)
            ultimately show ?thesis using e123 by blast
          next
            case r3: (Inr u3')
            then have "r = Inr True" "w' = w3"
              using assms u1 Inr Cons docs a2 r2 u3 by (simp_all add: index_lecture_def)
            moreover have "milestones ((es1 @ es2) @ es3) =
                [Tag_created ''status'' ''Indexing'', Documents_added (length documents),
                 Tag_created ''status'' ''Indexed'']"
              using ms1 ms2 m3 r3 by (auto simp: milestones_append)
            ultimately show ?thesis using e123 by blast
          qed
        qed
      qed
    qed
  qed
qed

lemma transcribe_lecture_extends:
  assumes "transcribe_lecture sv src w = (r, w')"
  shows "\<exists>es. extends w w' es \<and>
           (r = Inr (Invoke_later ''index_lecture'' src) \<and>
              milestones es = [Tag_created ''status'' ''Transcribing''] \<or>
            (\<exists>e. r = Inl e) \<and> milestones es = [])"
proof -
  obtain r1 w1 where c1: "Tag_create sv ''source'' src w = (r1, w1)"
    by (cases "Tag_create sv ''source'' src w") auto
  note t1 = Tag_create_extends [OF c1]
  show ?thesis
  proof (cases r1)
    case (Inl e)
    then have "r = Inl e" "w' = w"
      using assms c1 t1 by (simp_all add: transcribe_lecture_def)
    then show ?thesis using extends_refl [of w] by (intro exI [of _ "[]"]) (simp add: milestones_def)
  next
    case r1: (Inr u1)
    then have e1: "extends w w1 [Tag_created ''source'' src]"
      using t1 by auto
    have ms1: "milestones [Tag_created ''source'' src] = []"
      by (simp add: milestones_def)
    show ?thesis
    proof (cases "youtube_title sv src")
      case (Inl e)
      then have "r = Inl e" "w' = w1"
        using assms c1 r1 by (simp_all add: transcribe_lecture_def)
      then show ?thesis using e1 ms1 by blast
    next
      case title: (Inr title)
      obtain r2 w2 where c2: "Tag_create sv ''title'' title w1 = (r2, w2)"
        by (cases "Tag_create sv ''title'' title w1") auto
      note t2 = Tag_create_extends [OF c2]
      show ?thesis
      proof (cases r2)
        case (Inl e)
        then have "r = Inl e" "w' = w1"
          using assms c1 r1 title c2 t2 by (simp_all add: transcribe_lecture_def)
        then show ?thesis using e1 ms1 by blast
      next
        case r2: (Inr u2)
        then have "extends w1 w2 [Tag_created ''title'' title]"
          using t2 by auto
        then have e2: "extends w w2 ([Tag_created ''source'' src] @ [Tag_created ''title'' title])"
          using e1 extends_trans by blast
        have ms2: "milestones ([Tag_created ''source'' src] @ [Tag_created ''title'' title]) = []"
          by (simp add: milestones_def)
        obtain r3 w3 where u3: "update_file_status sv ''Transcribing'' w2 = (r3, w3)"
          by (cases "update_file_status sv ''Transcribing'' w2") auto
        obtain es3 where e3: "extends w2 w3 es3"
          and m3: "r3 = Inr () \<and> milestones es3 = [Tag_created ''status'' ''Transcribing''] \<or>
                   r3 = Inl SteamshipError \<and> milestones es3 = []"
          using update_file_status_extends [OF u3] by blast
        have e23: "extends w w3 (([Tag_created ''source'' src] @ [Tag_created ''title'' title]) @ es3)"
          using e2 e3 by (rule extends_trans)
        show ?thesis
        proof (cases r3)
          case (Inl e)
          then have "r = Inl e" "w' = w3"
            using assms c1 r1 title c2 r2 u3 by (simp_all add: transcribe_lecture_def)
          moreover have
            "milestones (([Tag_created ''source'' src] @ [Tag_created ''title'' title]) @ es3) = []"
            using m3 Inl by (auto simp: milestones_def)
          ultimately show ?thesis using e23 by blast
        next
          case r3: (Inr u3')
          then have r: "r = Inr (Invoke_later ''index_lecture'' src)"
            and w': "w' = w3\<lparr> history := history w3 @ [Blockify_submitted] \<rparr>"
            using assms c1 r1 title c2 r2 u3 by (simp_all add: transcribe_lecture_def)
          have "extends w3 w' [Blockify_submitted]"
            unfolding w' by (simp add: extends_def status_markers_def)
          then have e4: "extends w w'
             ((([Tag_created ''source'' src] @ [Tag_created ''title'' title]) @ es3) @
              [Blockify_submitted])"
            using e23 extends_trans by blast
          have "milestones ((([Tag_created ''source'' src] @ [Tag_created ''title'' title]) @ es3) @
              [Blockify_submitted]) = [Tag_created ''status'' ''Transcribing'']"
            using m3 r3 by (auto simp: milestones_def)
          then show ?thesis using r e4 by blast
        qed
      qed
    qed
  qed
qed

lemma run_pipeline_extends:
  "\<exists>es n. extends w (run_pipeline sv url w) es \<and>
     (milestones es = [] \<or>
      milestones es = [Tag_created ''status'' ''Transcribing''] \<or>
      milestones es = [Tag_created ''status'' ''Transcribing'',
                       Tag_created ''status'' ''Indexing''] \<or>
      milestones es = [Tag_created ''status'' ''Transcribing'',
                       Tag_created ''status'' ''Indexing'', Documents_added n] \<or>
      milestones es = [Tag_created ''status'' ''Transcribing'',
                       Tag_created ''status'' ''Indexing'', Documents_added n,
                       Tag_created ''status'' ''Indexed''])"
proof (cases "import_fails sv")
  case True
  then have "run_pipeline sv url w = w"
    by (simp add: run_pipeline_def add_lecture_def)
  then show ?thesis
    using extends_refl [of w] by (intro exI [of _ "[]"]) (simp add: milestones_def)
next
  case False
  obtain r1 w1 where t: "transcribe_lecture sv url w = (r1, w1)"
    by (cases "transcribe_lecture sv url w") auto
  obtain es1 where e1: "extends w w1 es1"
    and m1: "r1 = Inr (Invoke_later ''index_lecture'' url) \<and>
               milestones es1 = [Tag_created ''status'' ''Transcribing''] \<or>
             (\<exists>e. r1 = Inl e) \<and> milestones es1 = []"
    using transcribe_lecture_extends [OF t] by blast
  show ?thesis
  proof (cases r1)
    case (Inl e)
    then have "run_pipeline sv url w = w1"
      using False t by (simp add: run_pipeline_def add_lecture_def)
    then show ?thesis using e1 m1 Inl by auto
  next
    case (Inr call)
    then have call: "call = Invoke_later ''index_lecture'' url"
      and ms1: "milestones es1 = [Tag_created ''status'' ''Transcribing'']"
      using m1 by auto
    have run: "run_pipeline sv url w = run_index_stage sv (Invoke_later ''index_lecture'' url) w1"
      using False t Inr call by (simp add: run_pipeline_def add_lecture_def)
    show ?thesis
    proof (cases "transcription sv")
      case (Inl e)
      then have "run_pipeline sv url w = w1"
        using run by (simp add: run_index_stage_def)
      then show ?thesis using e1 ms1 by auto
    next
      case tags: (Inr tags)
      let ?w2 = "w1\<lparr> file_blocks := [tags] \<rparr>"
      obtain r3 w3 where i: "index_lecture sv url ?w2 = (r3, w3)"
        by (cases "index_lecture sv url ?w2") auto
      have w3: "run_pipeline sv url w = w3"
        using run tags i by (simp add: run_index_stage_def)
      have "extends w1 ?w2 []"
        by (simp add: extends_def status_markers_def)
      then have e2: "extends w ?w2 (es1 @ [])"
        using e1 extends_trans by blast
      obtain es3 n where e3: "extends ?w2 w3 es3"
        and m3: "r3 = Inr True \<and>
              milestones es3 = [Tag_created ''status'' ''Indexing'', Documents_added n,
                               Tag_created ''status'' ''Indexed''] \<or>
            (\<exists>e. r3 = Inl e) \<and>
              (milestones es3 = [] \<or>
               milestones es3 = [Tag_created ''status'' ''Indexing''] \<or>
               milestones es3 = [Tag_created ''status'' ''Indexing'', Documents_added n])"
        using index_lecture_extends [OF i] by blast
      have e: "extends w w3 ((es1 @ []) @ es3)"
        using e2 e3 by (rule extends_trans)
      have "milestones ((es1 @ []) @ es3) = Tag_created ''status'' ''Transcribing'' # milestones es3"
        using ms1 by (simp add: milestones_append)
      then show ?thesis
        using e m3 unfolding w3 by (intro exI [of _ "(es1 @ []) @ es3"] exI [of _ n]) auto
    qed
  qed
qed

lemma sorted_tokens_3: "sorted_timestamps (tokens 3) = tokens 3"
  unfolding tokens_3 by (simp add: sorted_timestamps_def token_def)

lemma run_reliable:
  "status_markers (run_pipeline reliable ''https://youtu.be/abc'' imported_file) = [''Indexed''] \<and>
   milestones (history (run_pipeline reliable ''https://youtu.be/abc'' imported_file)) =
     [Tag_created ''status'' ''Transcribing'', Tag_created ''status'' ''Indexing'',
      Documents_added 1, Tag_created ''status'' ''Indexed''] \<and>
   vector_index (run_pipeline reliable ''https://youtu.be/abc'' imported_file) = [doc3]"
  by (simp add: run_pipeline_def add_lecture_def transcribe_lecture_def run_index_stage_def
      index_lecture_def update_file_status_def Tag_create_def Tag_delete_def add_documents_def
      reliable_def imported_file_def sorted_tokens_3 chunk_tokens_3 status_markers_def
      milestones_def)

text \<open>
  Claim C8. Whatever the services answer, the status markers written for a lecture
  during its pipeline run are, in order, a beginning of \<^verbatim>\<open>Transcribing\<close>,
  \<^verbatim>\<open>Indexing\<close>, \<^verbatim>\<open>Indexed\<close>: a stage that fails leaves the sequence where it
  stood. The documents are inserted after \<^verbatim>\<open>Indexing\<close> was written and before
  \<^verbatim>\<open>Indexed\<close> is. A lecture that did not carry \<^verbatim>\<open>Indexed\<close> before the run and
  carries it after has had all three markers written, \<^verbatim>\<open>Indexing\<close> before
  \<^verbatim>\<open>Indexed\<close>. The second part is \<^verbatim>\<open>index_lecture\<close> on its own, from any state.
\<close>

theorem status_order:
  "(\<exists>es n. history (run_pipeline sv url w) = history w @ es \<and>
      prefix (status_writes es) [''Transcribing'', ''Indexing'', ''Indexed''] \<and>
      prefix (milestones es)
        [Tag_created ''status'' ''Transcribing'', Tag_created ''status'' ''Indexing'',
         Documents_added n, Tag_created ''status'' ''Indexed''] \<and>
      (''Indexed'' \<in> set (status_markers (run_pipeline sv url w)) \<and>
       ''Indexed'' \<notin> set (status_markers w) \<longrightarrow>
         status_writes es = [''Transcribing'', ''Indexing'', ''Indexed''])) \<and>
   (\<exists>es n. history (snd (index_lecture sv source w)) = history w @ es \<and>
      prefix (milestones es)
        [Tag_created ''status'' ''Indexing'', Documents_added n,
         Tag_created ''status'' ''Indexed''] \<and>
      (fst (index_lecture sv source w) = Inr True \<longrightarrow>
         milestones es =
           [Tag_created ''status'' ''Indexing'', Documents_added n,
            Tag_created ''status'' ''Indexed'']))"
proof
  obtain es n where e: "extends w (run_pipeline sv url w) es"
    and m: "milestones es = [] \<or>
      milestones es = [Tag_created ''status'' ''Transcribing''] \<or>
      milestones es = [Tag_created ''status'' ''Transcribing'',
                       Tag_created ''status'' ''Indexing''] \<or>
      milestones es = [Tag_created ''status'' ''Transcribing'',
                       Tag_created ''status'' ''Indexing'', Documents_added n] \<or>
      milestones es = [Tag_created ''status'' ''Transcribing'',
                       Tag_created ''status'' ''Indexing'', Documents_added n,
                       Tag_created ''status'' ''Indexed'']"
    using run_pipeline_extends by blast
  have h: "history (run_pipeline sv url w) = history w @ es"
    using e by (simp add: extends_def)
  have p: "prefix (milestones es)
        [Tag_created ''status'' ''Transcribing'', Tag_created ''status'' ''Indexing'',
         Documents_added n, Tag_created ''status'' ''Indexed'']"
    using m by auto
  have sw: "status_writes es = [] \<or> status_writes es = [''Transcribing''] \<or>
      status_writes es = [''Transcribing'', ''Indexing''] \<or>
      status_writes es = [''Transcribing'', ''Indexing'', ''Indexed'']"
    using m status_writes_milestones [of es] by (elim disjE) simp_all
  then have q: "prefix (status_writes es) [''Transcribing'', ''Indexing'', ''Indexed'']"
    by auto
  have c: "status_writes es = [''Transcribing'', ''Indexing'', ''Indexed'']"
    if "''Indexed'' \<in> set (status_markers (run_pipeline sv url w))"
      and "''Indexed'' \<notin> set (status_markers w)"
  proof -
    have "''Indexed'' \<in> set (status_writes es)"
      using that e by (auto simp: extends_def)
    then show ?thesis using sw by auto
  qed
  show "\<exists>es n. history (run_pipeline sv url w) = history w @ es \<and>
      prefix (status_writes es) [''Transcribing'', ''Indexing'', ''Indexed''] \<and>
      prefix (milestones es)
        [Tag_created ''status'' ''Transcribing'', Tag_created ''status'' ''Indexing'',
         Documents_added n, Tag_created ''status'' ''Indexed''] \<and>
      (''Indexed'' \<in> set (status_markers (run_pipeline sv url w)) \<and>
       ''Indexed'' \<notin> set (status_markers w) \<longrightarrow>
         status_writes es = [''Transcribing'', ''Indexing'', ''Indexed''])"
    using h p q c by blast
next
  obtain r w' where i: "index_lecture sv source w = (r, w')"
    by (cases "index_lecture sv source w") auto
  obtain es n where e: "extends w w' es"
    and m: "r = Inr True \<and>
              milestones es = [Tag_created ''status'' ''Indexing'', Documents_added n,
                               Tag_created ''status'' ''Indexed''] \<or>
            (\<exists>e. r = Inl e) \<and>
              (milestones es = [] \<or>
               milestones es = [Tag_created ''status'' ''Indexing''] \<or>
               milestones es = [Tag_created ''status'' ''Indexing'', Documents_added n])"
    using index_lecture_extends [OF i] by blast
  have h: "history (snd (index_lecture sv source w)) = history w @ es"
    using e i by (simp add: extends_def)
  have p: "prefix (milestones es)
        [Tag_created ''status'' ''Indexing'', Documents_added n,
         Tag_created ''status'' ''Indexed'']"
    using m by auto
  have f: "milestones es =
           [Tag_created ''status'' ''Indexing'', Documents_added n,
            Tag_created ''status'' ''Indexed'']" if "fst (index_lecture sv source w) = Inr True"
    using that m i by auto
  show "\<exists>es n. history (snd (index_lecture sv source w)) = history w @ es \<and>
      prefix (milestones es)
        [Tag_created ''status'' ''Indexing'', Documents_added n,
         Tag_created ''status'' ''Indexed''] \<and>
      (fst (index_lecture sv source w) = Inr True \<longrightarrow>
         milestones es =
           [Tag_created ''status'' ''Indexing'', Documents_added n,
            Tag_created ''status'' ''Indexed''])"
    using h p f by blast
qed

theorem status_order_witness:
  "status_markers imported_file = [] \<and>
   status_markers (run_pipeline reliable ''https://youtu.be/abc'' imported_file) = [''Indexed''] \<and>
   status_writes (history (run_pipeline reliable ''https://youtu.be/abc'' imported_file)) =
     [''Transcribing'', ''Indexing'', ''Indexed''] \<and>
   milestones (history (run_pipeline reliable ''https://youtu.be/abc'' imported_file)) =
     [Tag_created ''status'' ''Transcribing'', Tag_created ''status'' ''Indexing'',
      Documents_added 1, Tag_created ''status'' ''Indexed'']"
proof -
  let ?w = "run_pipeline reliable ''https://youtu.be/abc'' imported_file"
  have before: "status_markers imported_file = []"
    by (simp add: status_markers_def imported_file_def)
  have after: "status_markers ?w = [''Indexed'']"
    using run_reliable by blast
  obtain es where h: "history ?w = history imported_file @ es"
    and c: "''Indexed'' \<in> set (status_markers ?w) \<and>
            ''Indexed'' \<notin> set (status_markers imported_file) \<longrightarrow>
              status_writes es = [''Transcribing'', ''Indexing'', ''Indexed'']"
    using status_order [of reliable "''https://youtu.be/abc''" imported_file] by blast
  have "history ?w = es"
    using h by (simp add: imported_file_def)
  moreover have "status_writes es = [''Transcribing'', ''Indexing'', ''Indexed'']"
    using c before after by simp
  ultimately show ?thesis
    using before after run_reliable by simp
qed

section \<open>Answering a question\<close>

lemma py_or_same: "py_or d d = d"
  by (simp add: py_or_def split: option.splits)

lemma py_or_empty: "py_or (Some []) d = d"
  by (simp add: py_or_def)

lemma py_or_None: "py_or None d = d"
  by (simp add: py_or_def)

lemma chain_empty_index:
  "ChatVectorDBChain_call empty_index ''What is X?'' [] [] =
     (Inr \<lparr> result_answer = ''I do not know.'', result_source_documents = [] \<rparr>,
      [Answer_synthesis [] ''What is X?''])"
  by (simp add: ChatVectorDBChain_call_def empty_index_def Let_def)

lemma chain_one_lecture:
  "ChatVectorDBChain_call one_lecture_index ''What is X?'' [] [] =
     (Inr \<lparr> result_answer = '' The lecture says w. '', result_source_documents = [doc3] \<rparr>,
      [Answer_synthesis [doc3] ''What is X?''])"
  by (simp add: ChatVectorDBChain_call_def one_lecture_index_def Let_def)

lemma strip_example: "strip '' The lecture says w. '' = ''The lecture says w.''"
  by (simp add: strip_def is_space_def)

lemma chain_empty_index_follow_up:
  "ChatVectorDBChain_call empty_index ''And Y?'' [(''What is X?'', ''X is a letter.'')] [] =
     (Inr \<lparr> result_answer = ''I do not know.'', result_source_documents = [] \<rparr>,
      [Condense_question ''And Y?'' [(''What is X?'', ''X is a letter.'')],
       Answer_synthesis [] ''And Y?''])"
  by (simp add: ChatVectorDBChain_call_def empty_index_def Let_def)

lemma chain_one_lecture_follow_up:
  "ChatVectorDBChain_call one_lecture_index ''And Y?'' [(''What is X?'', ''X is a letter.'')] [] =
     (Inr \<lparr> result_answer = '' The lecture says w. '', result_source_documents = [doc3] \<rparr>,
      [Condense_question ''And Y?'' [(''What is X?'', ''X is a letter.'')],
       Answer_synthesis [doc3] ''And Y?''])"
  by (simp add: ChatVectorDBChain_call_def one_lecture_index_def Let_def)

lemma load_default_turn:
  "ChatHistory_load (py_or None (default_chat_session_id default_config))
     (chat_store chat_with_turn) = [(''What is X?'', ''X is a letter.'')]"
  by (simp add: ChatHistory_load_def py_or_def default_config_def chat_with_turn_def)

lemma load_other_session:
  "ChatHistory_load (py_or (Some ''s1'') (default_chat_session_id default_config))
     (chat_store fresh_chat) = []"
  by (simp add: ChatHistory_load_def fresh_chat_def)

subsection \<open>The session of a call\<close>

text \<open>
  Claim C9. \<^verbatim>\<open>answer\<close> resolves the session with \<^verbatim>\<open>or\<close>: the empty string, as
  well as \<^verbatim>\<open>None\<close>, is replaced by the configured default session, so a call with
  the empty string does what a call without a session does, which is what a call with
  the default session itself does.
\<close>

theorem answer_empty_session_id:
  "py_or (Some []) (default_chat_session_id cfg) = default_chat_session_id cfg \<and>
   py_or None (default_chat_session_id cfg) = default_chat_session_id cfg \<and>
   answer cfg qa_chain question (Some []) w = answer cfg qa_chain question None w \<and>
   answer cfg qa_chain question (Some []) w =
     answer cfg qa_chain question (default_chat_session_id cfg) w"
  by (simp only: answer_def py_or_empty py_or_None py_or_same simp_thms)

subsection \<open>No sources found\<close>

text \<open>
  Claim C2, as the code has it. When the chain returns no source document,
  \<^verbatim>\<open>answer\<close> returns the fixed message with an empty source list, and the answer
  the chain generated is dropped. \<^verbatim>\<open>answer\<close> makes no call to the generation service
  of its own: the calls made are those of the chain, which has run as a whole before the
  number of source documents is looked at.
\<close>

theorem answer_no_sources:
  assumes "qa_chain question
             (ChatHistory_load (py_or chat_session_id (default_chat_session_id cfg)) (chat_store w))
             (llm_calls w) = (Inr result, calls)"
    and "result_source_documents result = []"
  shows "fst (answer cfg qa_chain question chat_session_id w) =
           Inr \<lparr> resp_answer =
                   ''No sources found to answer your question. Please try another question.'',
                 resp_sources = [] \<rparr> \<and>
         llm_calls (snd (answer cfg qa_chain question chat_session_id w)) = calls"
  using assms by (simp add: answer_def no_sources_message_def Let_def)

theorem answer_no_sources_witness:
  "fst (answer default_config (ChatVectorDBChain_call empty_index) ''What is X?'' (Some ''s1'')
          fresh_chat) =
     Inr \<lparr> resp_answer =
             ''No sources found to answer your question. Please try another question.'',
           resp_sources = [] \<rparr> \<and>
   llm_calls (snd (answer default_config (ChatVectorDBChain_call empty_index) ''What is X?''
          (Some ''s1'') fresh_chat)) = [Answer_synthesis [] ''What is X?'']"
proof -
  have a: "ChatVectorDBChain_call empty_index ''What is X?''
             (ChatHistory_load (py_or (Some ''s1'') (default_chat_session_id default_config))
                (chat_store fresh_chat))
             (llm_calls fresh_chat) =
           (Inr \<lparr> result_answer = ''I do not know.'', result_source_documents = [] \<rparr>,
            [Answer_synthesis [] ''What is X?''])"
    unfolding load_other_session using chain_empty_index by (simp add: fresh_chat_def)
  have b: "result_source_documents
             \<lparr> result_answer = ''I do not know.'', result_source_documents = ([] :: unit document list) \<rparr> = []"
    by simp
  show ?thesis
    using answer_no_sources
      [where qa_chain = "ChatVectorDBChain_call empty_index" and question = "''What is X?''"
         and chat_session_id = "Some ''s1''" and cfg = default_config and w = fresh_chat,
       OF a b] .
qed

text \<open>
  With the chain that \<^verbatim>\<open>_get_chain\<close> builds, the generation service is called for
  the synthesis of an answer also when the vector store finds nothing: the call is made,
  on an empty list of documents, and its answer is replaced by the fixed message.
\<close>

theorem answer_no_sources_counterexample:
  "fst (answer default_config (ChatVectorDBChain_call empty_index) ''What is X?'' None fresh_chat) =
     Inr \<lparr> resp_answer = no_sources_message, resp_sources = [] \<rparr> \<and>
   llm_calls fresh_chat = [] \<and>
   llm_calls (snd (answer default_config (ChatVectorDBChain_call empty_index) ''What is X?'' None
      fresh_chat)) = [Answer_synthesis [] ''What is X?''] \<and>
   llm_calls (snd (answer default_config (ChatVectorDBChain_call empty_index) ''What is X?'' None
      fresh_chat)) \<noteq> llm_calls fresh_chat"
  by (simp add: answer_def Let_def default_config_def fresh_chat_def py_or_def ChatHistory_load_def
      chain_empty_index)

text \<open>
  Claim C10. A call whose chain returns no source document leaves the Chat History Store
  as it was: no turn is appended on that path.
\<close>

theorem zero_sources_keep_history:
  assumes "qa_chain question
             (ChatHistory_load (py_or chat_session_id (default_chat_session_id cfg)) (chat_store w))
             (llm_calls w) = (Inr result, calls)"
    and "length (result_source_documents result) = 0"
  shows "chat_store (snd (answer cfg qa_chain question chat_session_id w)) = chat_store w"
  using assms by (simp add: answer_def Let_def)

theorem zero_sources_keep_history_witness:
  "ChatHistory_load (Some ''default'') (chat_store chat_with_turn) =
     [(''What is X?'', ''X is a letter.'')] \<and>
   ChatHistory_load (Some ''default'')
     (chat_store (snd (answer default_config (ChatVectorDBChain_call empty_index) ''And Y?'' None
        chat_with_turn))) = [(''What is X?'', ''X is a letter.'')]"
proof -
  have a: "ChatVectorDBChain_call empty_index ''And Y?''
             (ChatHistory_load (py_or None (default_chat_session_id default_config))
                (chat_store chat_with_turn))
             (llm_calls chat_with_turn) =
           (Inr \<lparr> result_answer = ''I do not know.'', result_source_documents = [] \<rparr>,
            [Condense_question ''And Y?'' [(''What is X?'', ''X is a letter.'')],
             Answer_synthesis [] ''And Y?''])"
    unfolding load_default_turn using chain_empty_index_follow_up
    by (simp add: chat_with_turn_def)
  have b: "length (result_source_documents
             \<lparr> result_answer = ''I do not know.'',
               result_source_documents = ([] :: unit document list) \<rparr>) = 0"
    by simp
  have c: "ChatHistory_load (Some ''default'') (chat_store chat_with_turn) =
     [(''What is X?'', ''X is a letter.'')]"
    by (simp add: ChatHistory_load_def chat_with_turn_def)
  show ?thesis
    using zero_sources_keep_history
      [where qa_chain = "ChatVectorDBChain_call empty_index" and question = "''And Y?''"
         and chat_session_id = None and cfg = default_config and w = chat_with_turn,
       OF a b] c by simp
qed

subsection \<open>The turn appended\<close>

text \<open>
  Claim C3, as the code has it. When the chain returns at least one source document,
  \<^verbatim>\<open>answer\<close> appends exactly one turn to the resolved session of the Chat History
  Store and leaves every other session as it was. The turn holds the question and the
  answer as the chain generated it; the answer returned to the caller is that answer
  with the whitespace at both ends removed.
\<close>

theorem answer_appends_turn:
  assumes "qa_chain question
             (ChatHistory_load (py_or chat_session_id (default_chat_session_id cfg)) (chat_store w))
             (llm_calls w) = (Inr result, calls)"
    and "result_source_documents result \<noteq> []"
  shows "fst (answer cfg qa_chain question chat_session_id w) =
           Inr \<lparr> resp_answer = strip (result_answer result),
                 resp_sources = result_source_documents result \<rparr> \<and>
         chat_store (snd (answer cfg qa_chain question chat_session_id w)) =
           (chat_store w)
             (py_or chat_session_id (default_chat_session_id cfg) :=
                chat_store w (py_or chat_session_id (default_chat_session_id cfg)) @
                  [(question, result_answer result)])"
  using assms by (simp add: answer_def ChatHistory_append_def Let_def)

theorem answer_appends_turn_witness:
  "fst (answer default_config (ChatVectorDBChain_call one_lecture_index) ''And Y?'' None
          chat_with_turn) =
     Inr \<lparr> resp_answer = ''The lecture says w.'', resp_sources = [doc3] \<rparr> \<and>
   ChatHistory_load (Some ''default'')
     (chat_store (snd (answer default_config (ChatVectorDBChain_call one_lecture_index)
        ''And Y?'' None chat_with_turn))) =
     [(''What is X?'', ''X is a letter.''), (''And Y?'', '' The lecture says w. '')]"
proof -
  have a: "ChatVectorDBChain_call one_lecture_index ''And Y?''
             (ChatHistory_load (py_or None (default_chat_session_id default_config))
                (chat_store chat_with_turn))
             (llm_calls chat_with_turn) =
           (Inr \<lparr> result_answer = '' The lecture says w. '', result_source_documents = [doc3] \<rparr>,
            [Condense_question ''And Y?'' [(''What is X?'', ''X is a letter.'')],
             Answer_synthesis [doc3] ''And Y?''])"
    unfolding load_default_turn using chain_one_lecture_follow_up
    by (simp add: chat_with_turn_def)
  have b: "result_source_documents
             \<lparr> result_answer = '' The lecture says w. '', result_source_documents = [doc3] \<rparr> \<noteq> []"
    by simp
  have s: "py_or None (default_chat_session_id default_config) = Some ''default''"
    by (simp add: py_or_def default_config_def)
  show ?thesis
    using answer_appends_turn
      [where qa_chain = "ChatVectorDBChain_call one_lecture_index" and question = "''And Y?''"
         and chat_session_id = None and cfg = default_config and w = chat_with_turn,
       OF a b] unfolding s
    by (simp add: strip_example ChatHistory_load_def chat_with_turn_def)
qed

text \<open>
  The answer is appended before it is trimmed: a generated answer with blanks around it
  is stored with them and returned without them.
\<close>

theorem answer_appends_turn_counterexample:
  "ChatHistory_load (Some ''default'')
     (chat_store (snd (answer default_config (ChatVectorDBChain_call one_lecture_index)
        ''What is X?'' None fresh_chat))) = [(''What is X?'', '' The lecture says w. '')] \<and>
   resp_answer (projr (fst (answer default_config (ChatVectorDBChain_call one_lecture_index)
        ''What is X?'' None fresh_chat))) = ''The lecture says w.'' \<and>
   snd (last (ChatHistory_load (Some ''default'')
     (chat_store (snd (answer default_config (ChatVectorDBChain_call one_lecture_index)
        ''What is X?'' None fresh_chat))))) \<noteq>
   resp_answer (projr (fst (answer default_config (ChatVectorDBChain_call one_lecture_index)
        ''What is X?'' None fresh_chat)))"
  by (simp add: answer_def Let_def default_config_def fresh_chat_def py_or_def ChatHistory_load_def
      ChatHistory_append_def chain_one_lecture strip_example)

end
